theory Spec2Isabelle
  imports Complex_Main
begin

section \<open>Strings\<close>

text \<open>
  A Python \<open>str\<close> is a sequence of code points. \<open>Latin1 c\<close> is the code point below 256
  with the number of \<open>c\<close>, and \<open>Wide n\<close> is the code point \<open>256 + n\<close>. \<open>lit\<close> turns a
  literal of the source into the \<open>str\<close> it denotes.
\<close>

datatype codepoint = Latin1 char | Wide nat

type_synonym str = "codepoint list"

definition lit :: "string \<Rightarrow> str" where
  "lit s = map Latin1 s"

text \<open>
  What \<open>str.strip\<close>, \<open>str.lower\<close> and the classes of \<open>re\<close> do below 256 is written out
  from Python's tables. Beyond 256 it is a parameter: the classes of a code point
  \<open>256 + n\<close>, and \<open>str.lower\<close> on a string that has such a code point (it may change
  the length of the string, and it does not work code point by code point).
\<close>

record unicode =
  wide_isspace :: "nat \<Rightarrow> bool"
  wide_isword :: "nat \<Rightarrow> bool"
  wide_isdecimal :: "nat \<Rightarrow> bool"
  wide_lower :: "str \<Rightarrow> str"

text \<open>
  \<open>c.isspace()\<close>, and the class \<open>\s\<close> of a \<open>str\<close> pattern: the code points 9 to 13, 28
  to 32, 133 (next line) and 160 (no-break space).
\<close>

definition latin1_isspace :: "nat \<Rightarrow> bool" where
  "latin1_isspace n = ((9 \<le> n \<and> n \<le> 13) \<or> (28 \<le> n \<and> n \<le> 32) \<or> n = 133 \<or> n = 160)"

fun isspace :: "unicode \<Rightarrow> codepoint \<Rightarrow> bool" where
  "isspace uc (Latin1 c) = latin1_isspace (of_char c)"
| "isspace uc (Wide n) = wide_isspace uc n"

text \<open>The class \<open>\d\<close> of a \<open>str\<close> pattern: the decimal digits.\<close>

definition latin1_isdecimal :: "nat \<Rightarrow> bool" where
  "latin1_isdecimal n = (48 \<le> n \<and> n \<le> 57)"

fun isdecimal :: "unicode \<Rightarrow> codepoint \<Rightarrow> bool" where
  "isdecimal uc (Latin1 c) = latin1_isdecimal (of_char c)"
| "isdecimal uc (Wide n) = wide_isdecimal uc n"

text \<open>
  The class \<open>\w\<close> of a \<open>str\<close> pattern: the alphanumeric code points and the underscore.
  Below 256 these are the ASCII digits and letters, the underscore, the ordinal
  indicators, the superscript digits, micro, the fractions and the accented letters.
\<close>

definition latin1_isword :: "nat \<Rightarrow> bool" where
  "latin1_isword n =
     ((48 \<le> n \<and> n \<le> 57) \<or> (65 \<le> n \<and> n \<le> 90) \<or> n = 95 \<or> (97 \<le> n \<and> n \<le> 122) \<or>
      n = 170 \<or> (178 \<le> n \<and> n \<le> 179) \<or> n = 181 \<or> (185 \<le> n \<and> n \<le> 186) \<or>
      (188 \<le> n \<and> n \<le> 190) \<or> (192 \<le> n \<and> n \<le> 214) \<or> (216 \<le> n \<and> n \<le> 246) \<or>
      (248 \<le> n \<and> n \<le> 255))"

fun isword :: "unicode \<Rightarrow> codepoint \<Rightarrow> bool" where
  "isword uc (Latin1 c) = latin1_isword (of_char c)"
| "isword uc (Wide n) = wide_isword uc n"

text \<open>
  \<open>s.lower()\<close>. A string of code points below 256 is lowered code point by code point:
  the letters A to Z and the accented capitals 192 to 222, but for the multiplication
  sign 215, move up by 32.
\<close>

definition latin1_lower :: "nat \<Rightarrow> nat" where
  "latin1_lower n =
     (if (65 \<le> n \<and> n \<le> 90) \<or> (192 \<le> n \<and> n \<le> 214) \<or> (216 \<le> n \<and> n \<le> 222) then n + 32
      else n)"

fun lower_codepoint :: "codepoint \<Rightarrow> codepoint" where
  "lower_codepoint (Latin1 c) = Latin1 (char_of (latin1_lower (of_char c)))"
| "lower_codepoint (Wide n) = Wide n"

fun is_latin1 :: "codepoint \<Rightarrow> bool" where
  "is_latin1 (Latin1 c) = True"
| "is_latin1 (Wide n) = False"

definition lower :: "unicode \<Rightarrow> str \<Rightarrow> str" where
  "lower uc s = (if list_all is_latin1 s then map lower_codepoint s else wide_lower uc s)"

text \<open>\<open>s.strip()\<close>: leading and trailing whitespace removed.\<close>

definition strip :: "unicode \<Rightarrow> str \<Rightarrow> str" where
  "strip uc s = rev (dropWhile (isspace uc) (rev (dropWhile (isspace uc) s)))"

text \<open>\<open>s.startswith(p)\<close>\<close>

fun startswith :: "str \<Rightarrow> str \<Rightarrow> bool" where
  "startswith s [] = True"
| "startswith [] (p # ps) = False"
| "startswith (c # cs) (p # ps) = (c = p \<and> startswith cs ps)"

text \<open>\<open>k in s\<close> on strings: \<open>k\<close> occurs in \<open>s\<close> as a contiguous run.\<close>

fun contains :: "str \<Rightarrow> str \<Rightarrow> bool" where
  "contains [] k = (k = [])"
| "contains (c # cs) k = (startswith (c # cs) k \<or> contains cs k)"

text \<open>\<open>sep.join(xs)\<close>\<close>

fun join :: "str \<Rightarrow> str list \<Rightarrow> str" where
  "join sep [] = []"
| "join sep [x] = x"
| "join sep (x # y # ys) = x @ sep @ join sep (y # ys)"

text \<open>\<open>str(n)\<close> for an integer: its decimal rendering.\<close>

definition digit_char :: "nat \<Rightarrow> codepoint" where
  "digit_char d = Latin1 (char_of (48 + d))"

fun str_nat :: "nat \<Rightarrow> str" where
  "str_nat n = (if n < 10 then [digit_char n] else str_nat (n div 10) @ [digit_char (n mod 10)])"

definition str_int :: "int \<Rightarrow> str" where
  "str_int i = (if i < 0 then Latin1 CHR ''-'' # str_nat (nat (- i)) else str_nat (nat i))"

section \<open>The parsed document\<close>

text \<open>
  The tree that \<open>BeautifulSoup(html, "html.parser")\<close> builds. A \<open>NavigableString\<close> is a
  text node; \<open>Comment\<close> stands for the string nodes that \<open>get_text\<close> leaves out
  (comments, declarations); a \<open>Tag\<close> has a name, its attribute dictionary (as an
  association list) and its children in document order. The soup object itself is the
  root tag.
\<close>

datatype node =
    NavigableString str
  | Comment str
  | Tag str "(str \<times> str) list" "node list"

text \<open>\<open>tag.descendants\<close>: every node below the tag, in document order.\<close>

fun descendants :: "node \<Rightarrow> node list" where
  "descendants (NavigableString s) = []"
| "descendants (Comment s) = []"
| "descendants (Tag n as cs) = concat (map (\<lambda>c. c # descendants c) cs)"

text \<open>The filter of \<open>find_all(name, href=True)\<close>: a tag of that name carrying an href.\<close>

fun matches_href :: "str \<Rightarrow> node \<Rightarrow> bool" where
  "matches_href name (Tag n as cs) = (n = name \<and> map_of as (lit ''href'') \<noteq> None)"
| "matches_href name _ = False"

fun matches_name :: "str \<Rightarrow> node \<Rightarrow> bool" where
  "matches_name name (Tag n as cs) = (n = name)"
| "matches_name name _ = False"

text \<open>\<open>tag.find_all(name, href=True)\<close>\<close>

definition find_all_href :: "node \<Rightarrow> str \<Rightarrow> node list" where
  "find_all_href t name = filter (matches_href name) (descendants t)"

text \<open>\<open>tag.find_all(name)\<close>\<close>

definition find_all :: "node \<Rightarrow> str \<Rightarrow> node list" where
  "find_all t name = filter (matches_name name) (descendants t)"

text \<open>\<open>tag.find(name)\<close>: the first match in document order, or \<open>None\<close>.\<close>

definition find_tag :: "node \<Rightarrow> str \<Rightarrow> node option" where
  "find_tag t name = (case find_all t name of [] \<Rightarrow> None | x # _ \<Rightarrow> Some x)"

text \<open>\<open>link['href']\<close> on a tag returned by \<open>find_all(name, href=True)\<close>.\<close>

fun href :: "node \<Rightarrow> str" where
  "href (Tag n as cs) = (case map_of as (lit ''href'') of Some v \<Rightarrow> v | None \<Rightarrow> [])"
| "href _ = []"

text \<open>The strings \<open>get_text\<close> visits: the text nodes below the tag, in document order.\<close>

fun node_strings :: "node \<Rightarrow> str list" where
  "node_strings (NavigableString s) = [s]"
| "node_strings _ = []"

definition all_strings :: "node \<Rightarrow> str list" where
  "all_strings t = concat (map node_strings (descendants t))"

text \<open>
  \<open>tag.get_text(separator=" ", strip=True)\<close>: every text node stripped, the empty ones
  dropped, the rest joined by one space. Whitespace inside a text node stays as it is.
\<close>

definition get_text :: "unicode \<Rightarrow> node \<Rightarrow> str" where
  "get_text uc t = join (lit '' '') (filter (\<lambda>s. s \<noteq> []) (map (strip uc) (all_strings t)))"

section \<open>Test-content detection\<close>

definition TEST_KEYWORDS :: "str list" where
  "TEST_KEYWORDS = map lit [''test'', ''dummy'', ''lorem ipsum'', ''sample template'',
                            ''placeholder'', ''example'', ''this is a test'']"

text \<open>\<open>any(keyword in text_content for keyword in TEST_KEYWORDS)\<close>\<close>

definition is_test_template_of :: "str \<Rightarrow> bool" where
  "is_test_template_of text_content = list_ex (\<lambda>keyword. contains text_content keyword) TEST_KEYWORDS"

section \<open>The address pattern\<close>

text \<open>
  The fragment of Python's \<open>re\<close> syntax that \<open>ADDRESS_REGEX\<close> is written in: the
  classes \<open>\d\<close>, \<open>\s\<close>, \<open>\w\<close>, a literal character, concatenation, \<open>*\<close>, \<open>+\<close> and
  the counted repetitions \<open>{m,n}\<close> and \<open>{m,}\<close>. The pattern is a \<open>str\<close>, so its classes
  are those of Unicode. Its only literal is the comma, which has no other case, so the
  \<open>IGNORECASE\<close> flag changes nothing; its groups are never read, so they are not
  modelled.
\<close>

datatype cclass = Digit | Space | Word | Lit codepoint

fun in_class :: "unicode \<Rightarrow> cclass \<Rightarrow> codepoint \<Rightarrow> bool" where
  "in_class uc Digit c = isdecimal uc c"
| "in_class uc Space c = isspace uc c"
| "in_class uc Word c = isword uc c"
| "in_class uc (Lit a) c = (c = a)"

datatype rexp =
    Zero
  | Eps
  | Cls cclass
  | Seq rexp rexp
  | Alt rexp rexp
  | Star rexp

text \<open>\<open>r+\<close>, \<open>r{n}\<close>, \<open>r{m,}\<close> and \<open>r{m,n}\<close> (given as \<open>m\<close> and \<open>n - m\<close>).\<close>

definition Plus :: "rexp \<Rightarrow> rexp" where
  "Plus r = Seq r (Star r)"

fun Times :: "nat \<Rightarrow> rexp \<Rightarrow> rexp" where
  "Times 0 r = Eps"
| "Times (Suc n) r = Seq r (Times n r)"

fun UpTo :: "nat \<Rightarrow> rexp \<Rightarrow> rexp" where
  "UpTo 0 r = Eps"
| "UpTo (Suc n) r = Alt (Seq r (UpTo n r)) Eps"

definition AtLeast :: "nat \<Rightarrow> rexp \<Rightarrow> rexp" where
  "AtLeast m r = Seq (Times m r) (Star r)"

definition Between :: "nat \<Rightarrow> nat \<Rightarrow> rexp \<Rightarrow> rexp" where
  "Between m n r = Seq (Times m r) (UpTo (n - m) r)"

fun Seqs :: "rexp list \<Rightarrow> rexp" where
  "Seqs [] = Eps"
| "Seqs [r] = r"
| "Seqs (r # rs) = Seq r (Seqs rs)"

text \<open>\<open>\d{1,5}\s+\w+(\s+\w+)*,\s*\w+(\s+\w+)*,\s*\w{2,}\s*\d{5,}\<close>\<close>

definition words :: rexp where
  "words = Seq (Plus (Cls Word)) (Star (Seq (Plus (Cls Space)) (Plus (Cls Word))))"

definition ADDRESS_REGEX :: rexp where
  "ADDRESS_REGEX = Seqs [
     Between 1 5 (Cls Digit), Plus (Cls Space), words,
     Cls (Lit (Latin1 CHR '','')), Star (Cls Space), words,
     Cls (Lit (Latin1 CHR '','')), Star (Cls Space), AtLeast 2 (Cls Word), Star (Cls Space),
     AtLeast 5 (Cls Digit)]"

text \<open>The strings a pattern matches in full.\<close>

inductive_set star :: "str set \<Rightarrow> str set" for A :: "str set" where
  star_Nil: "[] \<in> star A"
| star_App: "u \<in> A \<Longrightarrow> v \<in> star A \<Longrightarrow> u @ v \<in> star A"

fun lang :: "unicode \<Rightarrow> rexp \<Rightarrow> str set" where
  "lang uc Zero = {}"
| "lang uc Eps = {[]}"
| "lang uc (Cls k) = {[c] | c. in_class uc k c}"
| "lang uc (Seq r s) = {u @ v | u v. u \<in> lang uc r \<and> v \<in> lang uc s}"
| "lang uc (Alt r s) = lang uc r \<union> lang uc s"
| "lang uc (Star r) = star (lang uc r)"

text \<open>
  The matcher. \<open>search\<close> tries every start position from left to right, as
  \<open>pattern.search\<close> does, and at each one \<open>match_here\<close> looks for a match that begins
  there; the pattern has no backreference or lookaround, so the backtracking search of
  \<open>re\<close> finds a match exactly when one exists, which is what the derivatives decide.
\<close>

fun nullable :: "rexp \<Rightarrow> bool" where
  "nullable Zero = False"
| "nullable Eps = True"
| "nullable (Cls k) = False"
| "nullable (Seq r s) = (nullable r \<and> nullable s)"
| "nullable (Alt r s) = (nullable r \<or> nullable s)"
| "nullable (Star r) = True"

fun seq :: "rexp \<Rightarrow> rexp \<Rightarrow> rexp" where
  "seq Zero s = Zero"
| "seq Eps s = s"
| "seq r s = Seq r s"

fun alt :: "rexp \<Rightarrow> rexp \<Rightarrow> rexp" where
  "alt Zero s = s"
| "alt r Zero = r"
| "alt r s = Alt r s"

fun deriv :: "unicode \<Rightarrow> codepoint \<Rightarrow> rexp \<Rightarrow> rexp" where
  "deriv uc c Zero = Zero"
| "deriv uc c Eps = Zero"
| "deriv uc c (Cls k) = (if in_class uc k c then Eps else Zero)"
| "deriv uc c (Seq r s) =
     (if nullable r then alt (seq (deriv uc c r) s) (deriv uc c s) else seq (deriv uc c r) s)"
| "deriv uc c (Alt r s) = alt (deriv uc c r) (deriv uc c s)"
| "deriv uc c (Star r) = seq (deriv uc c r) (Star r)"

fun match_here :: "unicode \<Rightarrow> rexp \<Rightarrow> str \<Rightarrow> bool" where
  "match_here uc r [] = nullable r"
| "match_here uc r (c # cs) = (nullable r \<or> match_here uc (deriv uc c r) cs)"

fun search :: "unicode \<Rightarrow> rexp \<Rightarrow> str \<Rightarrow> bool" where
  "search uc r [] = match_here uc r []"
| "search uc r (c # cs) = (match_here uc r (c # cs) \<or> search uc r cs)"

section \<open>The libraries the endpoint calls\<close>

text \<open>
  A call to \<open>requests.get\<close> or \<open>requests.head\<close> returns a response, raises an exception
  of the \<open>requests.RequestException\<close> hierarchy, or raises some other exception; the
  source tells the last two apart (\<open>except requests.RequestException\<close> at lines 57
  and 122, a bare \<open>except\<close> at line 76). The text of an exception is \<open>str(e)\<close>.
\<close>

datatype 'a outcome =
    Returns 'a
  | RequestException str
  | OtherException str

record response =
  status_code :: int
  resp_text :: str

text \<open>
  The network is a state \<open>'w\<close> that every request reads and may change, so two requests
  for one URL need not have the same outcome. \<open>BeautifulSoup\<close> is the parse with
  \<open>"html.parser"\<close>: it returns the tree (\<open>Inr\<close>) or raises an exception (\<open>Inl\<close>, with
  \<open>str(e)\<close>), as the parser does on markup it rejects; that exception is not of the
  \<open>requests\<close> hierarchy. \<open>str_tag\<close> is \<open>str(tag)\<close>, the serialised markup of an element,
  and \<open>ucd\<close> holds Python's tables for the code points from 256 on.
\<close>

record 'w library =
  requests_get :: "str \<Rightarrow> 'w \<Rightarrow> response outcome \<times> 'w"
  requests_head :: "str \<Rightarrow> 'w \<Rightarrow> response outcome \<times> 'w"
  BeautifulSoup :: "str \<Rightarrow> str + node"
  str_tag :: "node \<Rightarrow> str"
  ucd :: unicode

text \<open>
  What leaves \<open>verify_template\<close> as an exception: an \<open>HTTPException\<close> with its status
  code and detail, or an exception that no handler of the function catches.
\<close>

datatype error =
    HTTPException int str
  | Unhandled str

section \<open>The checks\<close>

text \<open>
  The quotient \<open>total_img_len / total_text_len\<close> is modelled by the exact rational
  quotient, \<open>float('inf')\<close> by \<open>Infinity\<close>, and the literals \<open>0.1\<close> and \<open>2.0\<close> by
  \<open>1/10\<close> and \<open>2\<close>. Python computes the double nearest to the quotient and compares
  it with the double nearest to \<open>1/10\<close>; for a text of fewer than \<open>2 ^ 52\<close> characters
  the two tests agree (lemma \<open>ratio_ok_as_doubles\<close>).
\<close>

datatype ratio = Infinity | Finite rat

text \<open>Lines 41 to 44.\<close>

definition image_text_ratio_of :: "nat \<Rightarrow> nat \<Rightarrow> ratio" where
  "image_text_ratio_of total_img_len total_text_len =
     (if total_text_len = 0 then Infinity
      else Finite (of_nat total_img_len / of_nat total_text_len))"

text \<open>Line 93: \<open>0.1 <= image_text_ratio <= 2.0\<close>\<close>

fun ratio_ok :: "ratio \<Rightarrow> bool" where
  "ratio_ok Infinity = False"
| "ratio_ok (Finite q) = (1 / 10 \<le> q \<and> q \<le> 2)"

text \<open>
  The finite values of a double: an integer of fewer than 54 bits scaled by a power of
  two between \<open>2 ^ -1074\<close> and \<open>2 ^ 971\<close>. \<open>nearest_double q d\<close> says that no double is
  closer to \<open>q\<close> than \<open>d\<close>, which is what the division and the literals of Python
  return; \<open>double_0_1\<close> is the literal \<open>0.1\<close>.
\<close>

definition is_double :: "rat \<Rightarrow> bool" where
  "is_double x = (\<exists>(m::int) (k::nat). \<bar>m\<bar> < 2 ^ 53 \<and>
      ((k \<le> 971 \<and> x = of_int m * 2 ^ k) \<or> (k \<le> 1074 \<and> x = of_int m / 2 ^ k)))"

definition nearest_double :: "rat \<Rightarrow> rat \<Rightarrow> bool" where
  "nearest_double q d = (is_double d \<and> (\<forall>d'. is_double d' \<longrightarrow> \<bar>q - d\<bar> \<le> \<bar>q - d'\<bar>))"

definition double_0_1 :: rat where
  "double_0_1 = 3602879701896397 / 2 ^ 55"

text \<open>\<open>href.startswith("http://") or href.startswith("https://")\<close>\<close>

definition is_absolute :: "str \<Rightarrow> bool" where
  "is_absolute h = (startswith h (lit ''http://'') \<or> startswith h (lit ''https://''))"

text \<open>
  Lines 48 to 58, the loop over \<open>links\<close> with \<open>broken_links\<close> as the accumulator. An
  exception outside the \<open>RequestException\<close> hierarchy is caught neither here nor at
  line 122, so it ends the function.
\<close>

fun check_links ::
  "(str \<Rightarrow> 'w \<Rightarrow> response outcome \<times> 'w) \<Rightarrow> node list \<Rightarrow> str list \<Rightarrow> 'w
     \<Rightarrow> (error + str list) \<times> 'w" where
  "check_links head [] broken_links w = (Inr broken_links, w)"
| "check_links head (link # links) broken_links w =
     (if is_absolute (href link) then
        (case head (href link) w of
           (Returns r, w') \<Rightarrow>
             if status_code r \<ge> 400 then check_links head links (broken_links @ [href link]) w'
             else check_links head links broken_links w'
         | (RequestException e, w') \<Rightarrow> check_links head links (broken_links @ [href link]) w'
         | (OtherException e, w') \<Rightarrow> (Inl (Unhandled e), w'))
      else check_links head links broken_links w)"

text \<open>
  Lines 68 to 77, the loop over \<open>footer_links\<close>: it breaks at the first response below
  400, and the bare \<open>except\<close> passes over every exception.
\<close>

fun footer_scan ::
  "(str \<Rightarrow> 'w \<Rightarrow> response outcome \<times> 'w) \<Rightarrow> node list \<Rightarrow> 'w \<Rightarrow> bool \<times> 'w" where
  "footer_scan head [] w = (False, w)"
| "footer_scan head (f_link # footer_links) w =
     (if is_absolute (href f_link) then
        (case head (href f_link) w of
           (Returns r, w') \<Rightarrow>
             if status_code r < 400 then (True, w') else footer_scan head footer_links w'
         | (RequestException e, w') \<Rightarrow> footer_scan head footer_links w'
         | (OtherException e, w') \<Rightarrow> footer_scan head footer_links w')
      else footer_scan head footer_links w)"

text \<open>
  Lines 61 to 85: \<open>(footer_link_valid, footer_address_found)\<close> for the result of
  \<open>soup.find("footer")\<close>. A tag is always truthy, so \<open>if footer\<close> asks whether one was
  found.
\<close>

fun footer_checks ::
  "unicode \<Rightarrow> (str \<Rightarrow> 'w \<Rightarrow> response outcome \<times> 'w) \<Rightarrow> node option \<Rightarrow> 'w
     \<Rightarrow> (bool \<times> bool) \<times> 'w" where
  "footer_checks uc head None w = ((False, False), w)"
| "footer_checks uc head (Some footer) w =
     (case footer_scan head (find_all_href footer (lit ''a'')) w of
        (footer_link_valid, w') \<Rightarrow>
          ((footer_link_valid, search uc ADDRESS_REGEX (get_text uc footer)), w'))"

section \<open>The result and the verdict\<close>

record check_results =
  is_test_template :: bool
  image_text_ratio :: ratio
  image_text_ratio_ok :: bool
  broken_links :: "str list"
  all_links_valid :: bool
  footer_link_valid :: bool
  footer_address_found :: bool

record result =
  status :: str
  url :: str
  checks :: check_results
  content_length :: nat
  preview_snippet :: str
  verification :: str
  message :: str

text \<open>Lines 104 to 118: \<open>(verification, message)\<close>.\<close>

definition verdict :: "check_results \<Rightarrow> str \<times> str" where
  "verdict c =
     (if is_test_template c then
        (lit ''fail'', lit ''The template appears to be a test/dummy template.'')
      else if \<not> all_links_valid c then
        (lit ''fail'', lit ''One or more clickable links are broken.'')
      else if \<not> footer_link_valid c \<or> \<not> footer_address_found c then
        (lit ''fail'',
         lit ''Footer is missing a valid clickable website link or full company address.'')
      else if \<not> image_text_ratio_ok c then
        (lit ''warning'', lit ''Image to text ratio is not balanced.'')
      else
        (lit ''pass'', lit ''Template passed all basic standard checks.''))"

text \<open>Lines 87 to 120, once every check has a value.\<close>

definition build_result ::
  "str \<Rightarrow> str \<Rightarrow> bool \<Rightarrow> ratio \<Rightarrow> str list \<Rightarrow> bool \<Rightarrow> bool \<Rightarrow> result" where
  "build_result data_url html is_test ratio broken flv faf =
     (let c = \<lparr> is_test_template = is_test,
                image_text_ratio = ratio,
                image_text_ratio_ok = ratio_ok ratio,
                broken_links = broken,
                all_links_valid = (length broken = 0),
                footer_link_valid = flv,
                footer_address_found = faf \<rparr>
      in \<lparr> status = lit ''success'',
           url = data_url,
           checks = c,
           content_length = length html,
           preview_snippet = take 300 html,
           verification = fst (verdict c),
           message = snd (verdict c) \<rparr>)"

text \<open>
  Lines 31 to 120: the pipeline on the parsed document. The effects are the probes, in
  the order of the source: the loop over the links, then the footer.
\<close>

definition run_checks :: "'w library \<Rightarrow> str \<Rightarrow> str \<Rightarrow> node \<Rightarrow> 'w \<Rightarrow> (error + result) \<times> 'w" where
  "run_checks lib data_url html soup w =
     (let text_content = lower (ucd lib) (get_text (ucd lib) soup);
          is_test = is_test_template_of text_content;
          total_text_len = length text_content;
          total_img_len =
            sum_list (map (\<lambda>img. length (str_tag lib img)) (find_all soup (lit ''img'')));
          ratio = image_text_ratio_of total_img_len total_text_len;
          links = find_all_href soup (lit ''a'')
      in case check_links (requests_head lib) links [] w of
           (Inl e, w') \<Rightarrow> (Inl e, w')
         | (Inr broken, w') \<Rightarrow>
             (case footer_checks (ucd lib) (requests_head lib) (find_tag soup (lit ''footer'')) w' of
                ((flv, faf), w'') \<Rightarrow>
                  (Inr (build_result data_url html is_test ratio broken flv faf), w'')))"

text \<open>
  Lines 23 to 123. An exception of the parse at line 30 is not a
  \<open>requests.RequestException\<close>, so the handler at line 122 lets it through.
\<close>

definition verify_template :: "'w library \<Rightarrow> str \<Rightarrow> 'w \<Rightarrow> (error + result) \<times> 'w" where
  "verify_template lib data_url w =
     (case requests_get lib data_url w of
        (Returns resp, w') \<Rightarrow>
          if status_code resp \<noteq> 200 then
            (Inl (HTTPException 400
               (lit ''Unable to fetch URL, status code: '' @ str_int (status_code resp))), w')
          else
            (case BeautifulSoup lib (resp_text resp) of
               Inl e \<Rightarrow> (Inl (Unhandled e), w')
             | Inr soup \<Rightarrow> run_checks lib data_url (resp_text resp) soup w')
      | (RequestException e, w') \<Rightarrow> (Inl (HTTPException 500 (lit ''Request failed: '' @ e)), w')
      | (OtherException e, w') \<Rightarrow> (Inl (Unhandled e), w'))"

section \<open>Vocabulary of the specification\<close>

text \<open>
  The classification of a probe's outcome in the words of the specification: alive below
  400, dead from 400 on, unreachable when the probe raises an exception of the
  \<open>requests\<close> hierarchy. \<open>escapes\<close> holds of the outcome that is none of the three, an
  exception from outside that hierarchy.
\<close>

fun alive :: "response outcome \<Rightarrow> bool" where
  "alive (Returns r) = (status_code r < 400)"
| "alive _ = False"

fun dead :: "response outcome \<Rightarrow> bool" where
  "dead (Returns r) = (status_code r \<ge> 400)"
| "dead _ = False"

fun unreachable :: "response outcome \<Rightarrow> bool" where
  "unreachable (RequestException e) = True"
| "unreachable _ = False"

fun escapes :: "response outcome \<Rightarrow> bool" where
  "escapes (OtherException e) = True"
| "escapes _ = False"

text \<open>
  Probing the URLs of a list one after the other, each probe on the network as the one
  before left it: the outcomes in order, and the network after the last probe.
\<close>

fun probe_all ::
  "(str \<Rightarrow> 'w \<Rightarrow> response outcome \<times> 'w) \<Rightarrow> str list \<Rightarrow> 'w \<Rightarrow> response outcome list \<times> 'w" where
  "probe_all head [] w = ([], w)"
| "probe_all head (u # us) w =
     (case head u w of (out, w') \<Rightarrow>
        (case probe_all head us w' of (outs, w'') \<Rightarrow> (out # outs, w'')))"

text \<open>The URLs among \<open>us\<close> whose outcome in \<open>outs\<close> is dead or unreachable, in order.\<close>

definition reported :: "str list \<Rightarrow> response outcome list \<Rightarrow> str list" where
  "reported us outs = map fst (filter (\<lambda>(u, out). dead out \<or> unreachable out) (zip us outs))"

text \<open>The hrefs of a tag's anchors that begin with \<open>http://\<close> or \<open>https://\<close>, in document order.\<close>

definition absolute_hrefs :: "node \<Rightarrow> str list" where
  "absolute_hrefs t = filter is_absolute (map href (find_all_href t (lit ''a'')))"

text \<open>An element with an href attribute, whatever its name.\<close>

fun has_href :: "node \<Rightarrow> bool" where
  "has_href (Tag n as cs) = (map_of as (lit ''href'') \<noteq> None)"
| "has_href _ = False"

text \<open>
  The whitespace-collapsed form of a text, in the words of the specification; no
  function of the source computes it. Every run of whitespace becomes one space and
  the ends are trimmed, as \<open>" ".join(s.split())\<close> does. \<open>split_from cur s\<close> is the list of
  the words of \<open>s\<close>, the first one continuing \<open>cur\<close>.
\<close>

fun split_from :: "unicode \<Rightarrow> str \<Rightarrow> str \<Rightarrow> str list" where
  "split_from uc cur [] = (if cur = [] then [] else [cur])"
| "split_from uc cur (c # cs) =
     (if isspace uc c then (if cur = [] then split_from uc [] cs else cur # split_from uc [] cs)
      else split_from uc (cur @ [c]) cs)"

definition whitespace_collapsed :: "unicode \<Rightarrow> str \<Rightarrow> str" where
  "whitespace_collapsed uc s = join (lit '' '') (split_from uc [] s)"

text \<open>
  A text trimmed, in the words of the specification: \<open>trimmed uc s t\<close> says that \<open>t\<close> is
  \<open>s\<close> without the whitespace at its two ends.
\<close>

definition trimmed :: "unicode \<Rightarrow> str \<Rightarrow> str \<Rightarrow> bool" where
  "trimmed uc s t =
     (\<exists>a b. s = a @ t @ b \<and> list_all (isspace uc) a \<and> list_all (isspace uc) b \<and>
        (t = [] \<or> (\<not> isspace uc (hd t) \<and> \<not> isspace uc (last t))))"

section \<open>Example inputs\<close>

text \<open>
  Documents are written with \<open>text_node\<close>, \<open>element\<close> and \<open>document\<close>, which take the
  literals of an ASCII text. \<open>newline\<close>, \<open>next_line\<close>, \<open>nbsp\<close>, \<open>E_acute\<close> and \<open>e_acute\<close> are
  the code points 10, 133, 160, 201 and 233.
\<close>

definition text_node :: "string \<Rightarrow> node" where
  "text_node s = NavigableString (lit s)"

definition element :: "string \<Rightarrow> (string \<times> string) list \<Rightarrow> node list \<Rightarrow> node" where
  "element name attrs children = Tag (lit name) (map (\<lambda>(k, v). (lit k, lit v)) attrs) children"

definition document :: "node list \<Rightarrow> node" where
  "document children = Tag (lit ''[document]'') [] children"

definition newline :: codepoint where
  "newline = Latin1 (CHR 0x0A)"

definition nbsp :: codepoint where
  "nbsp = Latin1 (CHR 0xA0)"

definition next_line :: codepoint where
  "next_line = Latin1 (CHR 0x85)"

definition e_acute :: codepoint where
  "e_acute = Latin1 (CHR 0xE9)"

definition E_acute :: codepoint where
  "E_acute = Latin1 (CHR 0xC9)"

text \<open>
  The examples have no code point from 256 on, so the tables beyond are never
  consulted; \<open>plain_tables\<close> stands in for them.
\<close>

definition plain_tables :: unicode where
  "plain_tables = \<lparr> wide_isspace = (\<lambda>n. False), wide_isword = (\<lambda>n. False),
                      wide_isdecimal = (\<lambda>n. False), wide_lower = (\<lambda>s. s) \<rparr>"

text \<open>
  A network whose state is the list of the URLs requested so far. \<open>page\<close> answers a
  fetch with status 200 and the given body; \<open>table_head\<close> answers a probe by the URL
  alone.
\<close>

definition page :: "str \<Rightarrow> str \<Rightarrow> str list \<Rightarrow> response outcome \<times> str list" where
  "page html u seen = (Returns \<lparr>status_code = 200, resp_text = html\<rparr>, seen @ [u])"

definition table_head ::
  "(str \<Rightarrow> response outcome) \<Rightarrow> str \<Rightarrow> str list \<Rightarrow> response outcome \<times> str list" where
  "table_head f u seen = (f u, seen @ [u])"

definition answer :: "int \<Rightarrow> response outcome" where
  "answer code = Returns \<lparr>status_code = code, resp_text = []\<rparr>"

text \<open>
  The probe outcomes of the examples: \<open>bad\<close> answers 404, \<open>gone\<close> times out, \<open>odd\<close>
  makes \<open>requests\<close> raise an exception of \<open>urllib3\<close>, every other host answers 200.
\<close>

definition probes :: "str \<Rightarrow> response outcome" where
  "probes u =
     (if u = lit ''http://bad.example'' then answer 404
      else if u = lit ''http://gone.example'' then RequestException (lit ''timed out'')
      else if u = lit ''http://odd.example'' then OtherException (lit ''label empty or too long'')
      else answer 200)"

text \<open>The serialised markup of an element without children, as \<open>str(tag)\<close> prints it.\<close>

fun markup :: "node \<Rightarrow> str" where
  "markup (Tag n as cs) =
     lit ''<'' @ n @
     concat (map (\<lambda>(k, v). lit '' '' @ k @ lit ''='' @ [Latin1 (CHR 0x22)] @ v @ [Latin1 (CHR 0x22)]) as) @
     lit ''/>''"
| "markup (NavigableString s) = s"
| "markup (Comment s) = lit ''<!--'' @ s @ lit ''-->''"

definition example_lib :: "str \<Rightarrow> node \<Rightarrow> str list library" where
  "example_lib html soup =
     \<lparr> requests_get = page html,
       requests_head = table_head probes,
       BeautifulSoup = (\<lambda>h. Inr soup),
       str_tag = markup,
       ucd = plain_tables \<rparr>"

text \<open>
  A newsletter with a balanced ratio, live links and a complete footer, indented the
  way markup is written.
\<close>

definition newsletter_html :: str where
  "newsletter_html = lit ''<p> Welcome to our Spring newsletter </p>'' @ [newline] @
     lit ''<img src=a.png><a href=https://shop.example>Shop</a> <a href=/contact>Contact</a>'' @
     lit ''<footer>'' @ [newline] @ lit ''  123 Main Street, Springfield, IL 62704  '' @
     lit ''<a href=https://corp.example>Home</a>'' @ [newline] @ lit ''</footer>''"

definition newsletter_footer :: node where
  "newsletter_footer = element ''footer'' [] [
     NavigableString ([newline] @ lit ''  123 Main Street, Springfield, IL 62704  ''),
     element ''a'' [(''href'', ''https://corp.example'')] [text_node ''Home''],
     NavigableString [newline]]"

definition newsletter :: node where
  "newsletter = document [
     element ''p'' [] [text_node '' Welcome to our Spring newsletter ''],
     NavigableString [newline],
     element ''img'' [(''src'', ''a.png'')] [],
     element ''a'' [(''href'', ''https://shop.example'')] [text_node ''Shop''],
     text_node '' '',
     element ''a'' [(''href'', ''/contact'')] [text_node ''Contact''],
     newsletter_footer]"

text \<open>A test mailing with a broken link in the body and a complete footer.\<close>

definition trial_html :: str where
  "trial_html = lit ''<p>This is a test mailing</p><a href=http://bad.example>Offer</a>'' @
     lit ''<footer>123 Main Street, Springfield, IL 62704<a href=https://corp.example>Home</a></footer>''"

definition trial :: node where
  "trial = document [
     element ''p'' [] [text_node ''This is a test mailing''],
     element ''a'' [(''href'', ''http://bad.example'')] [text_node ''Offer''],
     element ''footer'' [] [
       text_node ''123 Main Street, Springfield, IL 62704'',
       element ''a'' [(''href'', ''https://corp.example'')] [text_node ''Home'']]]"

text \<open>
  A bulletin whose only text is a headline in capitals on a line of its own, followed by
  a no-break space and a next-line character.
\<close>

definition bulletin_headline :: str where
  "bulletin_headline = lit ''LATEST '' @ [E_acute] @ lit ''DITION''"

definition bulletin_html :: str where
  "bulletin_html = lit ''<h1>'' @ [newline] @ lit ''  '' @ bulletin_headline @ [nbsp, next_line, newline] @
     lit ''</h1>'' @ [newline] @ lit ''<p> </p>''"

definition bulletin :: node where
  "bulletin = document [
     element ''h1'' [] [
       NavigableString ([newline] @ lit ''  '' @ bulletin_headline @ [nbsp, next_line, newline])],
     NavigableString [newline],
     element ''p'' [] [text_node '' '']]"

text \<open>A page whose paragraph is wrapped after its first word.\<close>

definition wrapped_html :: str where
  "wrapped_html = lit ''<p>Lorem'' @ [newline] @ lit ''   ipsum dolor sit amet</p>''"

definition wrapped :: node where
  "wrapped = document [
     element ''p'' [] [NavigableString (lit ''Lorem'' @ [newline] @ lit ''   ipsum dolor sit amet'')]]"

text \<open>A poster: one image, and a table cell that holds a no-break space and nothing else.\<close>

definition poster_html :: str where
  "poster_html = lit ''<td>&nbsp;</td><img src=poster.png>''"

definition poster :: node where
  "poster = document [
     element ''td'' [] [NavigableString [nbsp]],
     element ''img'' [(''src'', ''poster.png'')] []]"

text \<open>A memo with one live link and no footer.\<close>

definition memo_html :: str where
  "memo_html = lit ''<p>Hello from the team</p><a href=https://shop.example>Shop</a>''"

definition memo :: node where
  "memo = document [
     element ''p'' [] [text_node ''Hello from the team''],
     element ''a'' [(''href'', ''https://shop.example'')] [text_node ''Shop'']]"

text \<open>
  A digest whose links are live, dead, unreachable, relative and repeated, without a
  footer.
\<close>

definition digest_html :: str where
  "digest_html = lit ''<p>Weekly digest</p><a href=http://good.example>Read</a>'' @
     lit ''<a href=http://bad.example>Offer</a><a href=/contact>Contact</a>'' @
     lit ''<a href=mailto:team@corp.example>Mail</a><a href=http://bad.example>Offer again</a>'' @
     lit ''<a href=http://gone.example>Archive</a><a href=https://shop.example>Shop</a>''"

definition digest :: node where
  "digest = document [
     element ''p'' [] [text_node ''Weekly digest''],
     element ''a'' [(''href'', ''http://good.example'')] [text_node ''Read''],
     element ''a'' [(''href'', ''http://bad.example'')] [text_node ''Offer''],
     element ''a'' [(''href'', ''/contact'')] [text_node ''Contact''],
     element ''a'' [(''href'', ''mailto:team@corp.example'')] [text_node ''Mail''],
     element ''a'' [(''href'', ''http://bad.example'')] [text_node ''Offer again''],
     element ''a'' [(''href'', ''http://gone.example'')] [text_node ''Archive''],
     element ''a'' [(''href'', ''https://shop.example'')] [text_node ''Shop'']]"

text \<open>
  A network on which the \<open>odd\<close> host answers 503 to its first probe and makes
  \<open>requests\<close> raise from the second probe on.
\<close>

definition retry_head :: "str \<Rightarrow> str list \<Rightarrow> response outcome \<times> str list" where
  "retry_head u seen =
     ((if u = lit ''http://odd.example'' \<and> u \<notin> set seen then answer 503 else probes u), seen @ [u])"

definition retry_lib :: "str \<Rightarrow> node \<Rightarrow> str list library" where
  "retry_lib html soup =
     \<lparr> requests_get = page html,
       requests_head = retry_head,
       BeautifulSoup = (\<lambda>h. Inr soup),
       str_tag = markup,
       ucd = plain_tables \<rparr>"

text \<open>A circular whose footer lists three failing links before two live ones.\<close>

definition circular_html :: str where
  "circular_html = lit ''<p>Monthly circular</p><footer>123 Main Street, Springfield, IL 62704'' @
     lit ''<a href=http://bad.example>Offer</a><a href=http://gone.example>Archive</a>'' @
     lit ''<a href=http://odd.example>Partner</a><a href=/imprint>Imprint</a>'' @
     lit ''<a href=https://corp.example>Home</a><a href=https://shop.example>Shop</a></footer>''"

definition circular_footer :: node where
  "circular_footer = element ''footer'' [] [
     text_node ''123 Main Street, Springfield, IL 62704'',
     element ''a'' [(''href'', ''http://bad.example'')] [text_node ''Offer''],
     element ''a'' [(''href'', ''http://gone.example'')] [text_node ''Archive''],
     element ''a'' [(''href'', ''http://odd.example'')] [text_node ''Partner''],
     element ''a'' [(''href'', ''/imprint'')] [text_node ''Imprint''],
     element ''a'' [(''href'', ''https://corp.example'')] [text_node ''Home''],
     element ''a'' [(''href'', ''https://shop.example'')] [text_node ''Shop'']]"

definition circular :: node where
  "circular = document [
     element ''p'' [] [text_node ''Monthly circular''],
     circular_footer]"

text \<open>A catalogue whose only href is on a stylesheet link, and that link is dead.\<close>

definition catalogue_html :: str where
  "catalogue_html = lit ''<link rel=stylesheet href=http://bad.example><p>Autumn catalogue</p>''"

definition catalogue :: node where
  "catalogue = document [
     element ''link'' [(''rel'', ''stylesheet''), (''href'', ''http://bad.example'')] [],
     element ''p'' [] [text_node ''Autumn catalogue'']]"

text \<open>A reminder with test content whose footer has an address and one dead link.\<close>

definition reminder_html :: str where
  "reminder_html = lit ''<p>This is a test reminder</p>'' @
     lit ''<footer>123 Main Street, Springfield, IL 62704<a href=http://bad.example>Home</a></footer>''"

definition reminder :: node where
  "reminder = document [
     element ''p'' [] [text_node ''This is a test reminder''],
     element ''footer'' [] [
       text_node ''123 Main Street, Springfield, IL 62704'',
       element ''a'' [(''href'', ''http://bad.example'')] [text_node ''Home'']]]"

text \<open>The same footer under a text without test content.\<close>

definition farewell_html :: str where
  "farewell_html = lit ''<p>Goodbye for now</p>'' @
     lit ''<footer>123 Main Street, Springfield, IL 62704<a href=http://bad.example>Home</a></footer>''"

definition farewell_footer :: node where
  "farewell_footer = element ''footer'' [] [
     text_node ''123 Main Street, Springfield, IL 62704'',
     element ''a'' [(''href'', ''http://bad.example'')] [text_node ''Home'']]"

definition farewell :: node where
  "farewell = document [
     element ''p'' [] [text_node ''Goodbye for now''],
     farewell_footer]"

text \<open>An invitation with a link to the \<open>odd\<close> host before a live link.\<close>

definition invitation_html :: str where
  "invitation_html = lit ''<p>You are invited</p><a href=http://odd.example>Partner</a>'' @
     lit ''<a href=https://shop.example>Shop</a>''"

definition invitation :: node where
  "invitation = document [
     element ''p'' [] [text_node ''You are invited''],
     element ''a'' [(''href'', ''http://odd.example'')] [text_node ''Partner''],
     element ''a'' [(''href'', ''https://shop.example'')] [text_node ''Shop'']]"

text \<open>
  A brochure whose footer gives a French address on lines of its own, with no-break
  spaces after the street number and before the postal code.
\<close>

definition brochure_address :: str where
  "brochure_address = lit ''12'' @ [nbsp] @ lit ''Rue Caf'' @ [e_acute] @ lit '', Orl'' @ [e_acute] @
     lit ''ans, FR'' @ [nbsp] @ lit ''45000''"

definition brochure_html :: str where
  "brochure_html = lit ''<p>Printemps</p><footer>'' @ [newline] @
     lit ''  12&nbsp;Rue Caf&eacute;, Orl&eacute;ans, FR&nbsp;45000 '' @ [newline] @
     lit ''<a href=https://corp.example>Accueil</a></footer>''"

definition brochure_footer :: node where
  "brochure_footer = element ''footer'' [] [
     NavigableString ([newline] @ lit ''  '' @ brochure_address @ lit '' '' @ [newline]),
     element ''a'' [(''href'', ''https://corp.example'')] [text_node ''Accueil'']]"

definition brochure :: node where
  "brochure = document [
     element ''p'' [] [text_node ''Printemps''],
     brochure_footer]"

section \<open>Substrings and pattern matching\<close>


lemma startswith_iff: "startswith s p \<longleftrightarrow> (\<exists>q. s = p @ q)"
  by (induction s p rule: startswith.induct) auto

lemma contains_iff: "contains s k \<longleftrightarrow> (\<exists>p q. s = p @ k @ q)"
proof (induction s)
  case Nil
  then show ?case by auto
next
  case (Cons c cs)
  have "(\<exists>p q. c # cs = p @ k @ q) \<longleftrightarrow> (\<exists>q. c # cs = k @ q) \<or> (\<exists>p q. cs = p @ k @ q)"
  proof
    assume "\<exists>p q. c # cs = p @ k @ q"
    then obtain p q where pq: "c # cs = p @ k @ q" by blast
    show "(\<exists>q. c # cs = k @ q) \<or> (\<exists>p q. cs = p @ k @ q)"
    proof (cases p)
      case Nil
      with pq show ?thesis by auto
    next
      case (Cons a p')
      with pq have "cs = p' @ k @ q" by simp
      then show ?thesis by blast
    qed
  next
    assume "(\<exists>q. c # cs = k @ q) \<or> (\<exists>p q. cs = p @ k @ q)"
    then show "\<exists>p q. c # cs = p @ k @ q"
    proof
      assume "\<exists>q. c # cs = k @ q"
      then obtain q where "c # cs = [] @ k @ q" by auto
      then show ?thesis by blast
    next
      assume "\<exists>p q. cs = p @ k @ q"
      then obtain p q where "cs = p @ k @ q" by blast
      then have "c # cs = (c # p) @ k @ q" by simp
      then show ?thesis by blast
    qed
  qed
  with Cons show ?case by (simp add: startswith_iff)
qed

lemma is_test_template_of_iff:
  "is_test_template_of t \<longleftrightarrow> (\<exists>k \<in> set TEST_KEYWORDS. \<exists>p q. t = p @ k @ q)"
  by (simp add: is_test_template_of_def list_ex_iff contains_iff)

lemma nullable_iff: "[] \<in> lang uc r \<longleftrightarrow> nullable r"
  by (induction r) (auto intro: star.intros)

lemma lang_seq: "lang uc (seq r s) = lang uc (Seq r s)"
  by (cases r) auto

lemma lang_alt: "lang uc (alt r s) = lang uc (Alt r s)"
  by (cases r; cases s) auto

lemma star_Cons:
  "c # w \<in> star A \<longleftrightarrow> (\<exists>u v. w = u @ v \<and> c # u \<in> A \<and> v \<in> star A)"
proof
  assume "c # w \<in> star A"
  then show "\<exists>u v. w = u @ v \<and> c # u \<in> A \<and> v \<in> star A"
  proof (induction "c # w" rule: star.induct)
    case (star_App u v)
    then show ?case by (cases u) auto
  qed
next
  assume "\<exists>u v. w = u @ v \<and> c # u \<in> A \<and> v \<in> star A"
  then obtain u v where "w = u @ v" "c # u \<in> A" "v \<in> star A" by blast
  then have "(c # u) @ v \<in> star A" by (intro star.star_App)
  with \<open>w = u @ v\<close> show "c # w \<in> star A" by simp
qed

lemma lang_deriv: "lang uc (deriv uc c r) = {w. c # w \<in> lang uc r}"
proof (induction r)
  case (Seq r s)
  have "{w. c # w \<in> lang uc (Seq r s)} =
        {u @ v | u v. c # u \<in> lang uc r \<and> v \<in> lang uc s} \<union> (if [] \<in> lang uc r then {w. c # w \<in> lang uc s} else {})"
    by (auto simp: Cons_eq_append_conv) 
  with Seq show ?case by (auto simp: lang_seq lang_alt nullable_iff)
next
  case (Star r)
  then show ?case by (auto simp: lang_seq star_Cons)
qed (auto simp: lang_alt)

lemma match_here_iff: "match_here uc r s \<longleftrightarrow> (\<exists>m q. s = m @ q \<and> m \<in> lang uc r)"
proof (induction s arbitrary: r)
  case Nil
  then show ?case by (simp add: nullable_iff)
next
  case (Cons c cs)
  have "(\<exists>m q. c # cs = m @ q \<and> m \<in> lang uc r) \<longleftrightarrow>
        [] \<in> lang uc r \<or> (\<exists>m q. cs = m @ q \<and> c # m \<in> lang uc r)"
    by (auto simp: Cons_eq_append_conv)
  with Cons show ?case by (simp add: nullable_iff lang_deriv)
qed

lemma search_iff: "search uc r s \<longleftrightarrow> (\<exists>p m q. s = p @ m @ q \<and> m \<in> lang uc r)"
proof (induction s)
  case Nil
  then show ?case by (simp add: nullable_iff)
next
  case (Cons c cs)
  have "(\<exists>p m q. c # cs = p @ m @ q \<and> m \<in> lang uc r) \<longleftrightarrow>
        (\<exists>m q. c # cs = m @ q \<and> m \<in> lang uc r) \<or> (\<exists>p m q. cs = p @ m @ q \<and> m \<in> lang uc r)"
    (is "?L \<longleftrightarrow> ?A \<or> ?B")
  proof
    assume ?L
    then obtain p m q where pq: "c # cs = p @ m @ q" "m \<in> lang uc r" by blast
    show "?A \<or> ?B"
    proof (cases p)
      case Nil
      with pq show ?thesis by auto
    next
      case (Cons a p')
      with pq have "cs = p' @ m @ q" by simp
      with pq(2) show ?thesis by blast
    qed
  next
    assume "?A \<or> ?B"
    then show ?L
    proof
      assume ?A
      then obtain m q where "c # cs = [] @ m @ q" "m \<in> lang uc r" by auto
      then show ?L by blast
    next
      assume ?B
      then obtain p m q where "cs = p @ m @ q" "m \<in> lang uc r" by blast
      then have "c # cs = (c # p) @ m @ q \<and> m \<in> lang uc r" by simp
      then show ?L by blast
    qed
  qed
  with Cons show ?case by (simp only: search.simps match_here_iff)
qed

section \<open>Trimming\<close>

lemma strip_trimmed: "trimmed uc s (strip uc s)"
proof -
  let ?P = "isspace uc"
  let ?m = "dropWhile ?P s"
  let ?t = "rev (dropWhile ?P (rev ?m))"
  let ?b = "rev (takeWhile ?P (rev ?m))"
  have t: "strip uc s = ?t" by (simp add: strip_def)
  have "?t @ ?b = rev (takeWhile ?P (rev ?m) @ dropWhile ?P (rev ?m))" by (simp only: rev_append)
  also have "\<dots> = rev (rev ?m)" by (simp only: takeWhile_dropWhile_id)
  finally have m: "?m = ?t @ ?b" by simp
  have "s = takeWhile ?P s @ ?m" by simp
  with m have s: "s = takeWhile ?P s @ ?t @ ?b" by simp
  have a: "list_all ?P (takeWhile ?P s)" by (simp add: list_all_iff) (meson set_takeWhileD)
  have b: "list_all ?P ?b" by (simp add: list_all_iff) (meson set_takeWhileD)
  have e: "?t = [] \<or> (\<not> ?P (hd ?t) \<and> \<not> ?P (last ?t))"
  proof (cases "?t = []")
    case True
    then show ?thesis by simp
  next
    case False
    then have d: "dropWhile ?P (rev ?m) \<noteq> []" by simp
    then have l: "\<not> ?P (last ?t)" by (simp add: last_rev hd_dropWhile)
    from False m have "hd ?t = hd ?m" by (metis hd_append2)
    moreover from False m have "?m \<noteq> []" by (metis append_is_Nil_conv)
    then have "\<not> ?P (hd ?m)" by (rule hd_dropWhile)
    ultimately have "\<not> ?P (hd ?t)" by simp
    with l show ?thesis by simp
  qed
  from s a b e show ?thesis unfolding trimmed_def t by blast
qed

lemma trimmed_unique:
  assumes "trimmed uc s t"
  shows "t = strip uc s"
proof -
  let ?P = "isspace uc"
  from assms obtain a b where s: "s = a @ t @ b" and a: "list_all ?P a" and b: "list_all ?P b"
    and e: "t = [] \<or> (\<not> ?P (hd t) \<and> \<not> ?P (last t))"
    unfolding trimmed_def by blast
  from a have da: "dropWhile ?P (a @ t @ b) = dropWhile ?P (t @ b)"
    by (simp add: list_all_iff dropWhile_append)
  from b have rb: "\<And>x. x \<in> set (rev b) \<Longrightarrow> ?P x" by (simp add: list_all_iff)
  show ?thesis
  proof (cases "t = []")
    case True
    from b have "dropWhile ?P b = []" by (simp add: list_all_iff)
    with True have "dropWhile ?P (t @ b) = []" by simp
    with da s have d: "dropWhile ?P s = []" by simp
    show ?thesis unfolding strip_def d True by simp
  next
    case False
    with e have h: "\<not> ?P (hd t)" and l: "\<not> ?P (last t)" by auto
    from False h have "dropWhile ?P (t @ b) = t @ b" by (cases t) auto
    with da s have m: "dropWhile ?P s = t @ b" by simp
    from rb have "dropWhile ?P (rev b @ rev t) = dropWhile ?P (rev t)"
      by (simp add: dropWhile_append)
    moreover from False l have "dropWhile ?P (rev t) = rev t"
      by (cases "rev t") (auto simp: last_rev [symmetric] hd_rev)
    ultimately have "rev (dropWhile ?P (rev (t @ b))) = t" by simp
    with m show ?thesis by (simp add: strip_def)
  qed
qed

lemma trimmed_strip_all: "list_all2 (trimmed uc) xs (map (strip uc) xs)"
  by (induction xs) (simp_all add: strip_trimmed)

lemma trimmed_all_unique:
  assumes "list_all2 (trimmed uc) xs ts"
  shows "ts = map (strip uc) xs"
  using assms by (induction xs ts rule: list_all2_induct) (simp_all add: trimmed_unique)

lemma get_text_trimmed:
  assumes "list_all2 (trimmed uc) (all_strings t) ts"
  shows "get_text uc t = join (lit '' '') (filter (\<lambda>s. s \<noteq> []) ts)"
  using trimmed_all_unique [OF assms] by (simp add: get_text_def)

section \<open>The loops over the links\<close>


lemma takeWhile_not_all: "length (takeWhile (\<lambda>x. \<not> P x) xs) < length xs \<longleftrightarrow> (\<exists>x \<in> set xs. P x)"
  by (induction xs) auto

lemma length_probe_all: "length (fst (probe_all head us w)) = length us"
proof (induction us arbitrary: w)
  case Nil
  then show ?case by simp
next
  case (Cons u us)
  obtain out w1 where h: "head u w = (out, w1)" by (cases "head u w")
  obtain outs w2 where p: "probe_all head us w1 = (outs, w2)" by (cases "probe_all head us w1")
  from Cons [of w1] h p show ?case by simp
qed

lemma check_links_acc:
  assumes "\<forall>out \<in> set (fst (probe_all head (filter is_absolute (map href links)) w)). \<not> escapes out"
  shows "check_links head links acc w =
           (Inr (acc @ reported (filter is_absolute (map href links))
                         (fst (probe_all head (filter is_absolute (map href links)) w))),
            snd (probe_all head (filter is_absolute (map href links)) w))"
  using assms
proof (induction links arbitrary: acc w)
  case Nil
  then show ?case by (simp add: reported_def)
next
  case (Cons link links)
  show ?case
  proof (cases "is_absolute (href link)")
    case False
    with Cons show ?thesis by simp
  next
    case True
    obtain out w' where h: "head (href link) w = (out, w')" by (cases "head (href link) w")
    obtain outs w'' where p: "probe_all head (filter is_absolute (map href links)) w' = (outs, w'')"
      by (cases "probe_all head (filter is_absolute (map href links)) w'")
    from Cons.prems True h p have ne: "\<not> escapes out" and rest: "\<forall>out \<in> set outs. \<not> escapes out"
      by auto
    from rest p have IH: "\<And>acc. check_links head links acc w' =
        (Inr (acc @ reported (filter is_absolute (map href links)) outs), w'')"
      using Cons.IH [of w'] by simp
    show ?thesis
    proof (cases out)
      case (Returns r)
      with True h p IH show ?thesis by (simp add: reported_def)
    next
      case (RequestException e)
      with True h p IH show ?thesis by (simp add: reported_def)
    next
      case (OtherException e)
      with ne show ?thesis by simp
    qed
  qed
qed

lemma check_links_escape:
  assumes "check_links head links acc w = (Inr b, w')"
  shows "\<forall>out \<in> set (fst (probe_all head (filter is_absolute (map href links)) w)). \<not> escapes out"
  using assms
proof (induction links arbitrary: acc w)
  case Nil
  then show ?case by simp
next
  case (Cons link links)
  show ?case
  proof (cases "is_absolute (href link)")
    case False
    with Cons show ?thesis by simp
  next
    case True
    obtain out w1 where h: "head (href link) w = (out, w1)" by (cases "head (href link) w")
    obtain outs w2 where p: "probe_all head (filter is_absolute (map href links)) w1 = (outs, w2)"
      by (cases "probe_all head (filter is_absolute (map href links)) w1")
    from Cons.prems True h have ne: "\<not> escapes out"
      by (cases out) auto
    from Cons.prems True h obtain acc' where "check_links head links acc' w1 = (Inr b, w')"
      by (cases out) (auto split: if_splits)
    from Cons.IH [OF this] p have "\<forall>out \<in> set outs. \<not> escapes out" by simp
    with ne True h p show ?thesis by simp
  qed
qed

lemma check_links_raises:
  assumes "\<exists>out \<in> set (fst (probe_all head (filter is_absolute (map href links)) w)). escapes out"
  shows "\<exists>e w'. check_links head links acc w = (Inl (Unhandled e), w')"
  using assms
proof (induction links arbitrary: acc w)
  case Nil
  then show ?case by simp
next
  case (Cons link links)
  show ?case
  proof (cases "is_absolute (href link)")
    case False
    with Cons show ?thesis by simp
  next
    case True
    obtain out w1 where h: "head (href link) w = (out, w1)" by (cases "head (href link) w")
    obtain outs w2 where p: "probe_all head (filter is_absolute (map href links)) w1 = (outs, w2)"
      by (cases "probe_all head (filter is_absolute (map href links)) w1")
    show ?thesis
    proof (cases "escapes out")
      case True
      then obtain e where "out = OtherException e" by (cases out) auto
      with \<open>is_absolute (href link)\<close> h show ?thesis by simp
    next
      case False
      with Cons.prems \<open>is_absolute (href link)\<close> h p
      have "\<exists>out \<in> set (fst (probe_all head (filter is_absolute (map href links)) w1)). escapes out"
        by auto
      from Cons.IH [OF this] have IH: "\<And>acc. \<exists>e w'. check_links head links acc w1 = (Inl (Unhandled e), w')" .
      from False \<open>is_absolute (href link)\<close> h IH show ?thesis
        by (cases out) auto
    qed
  qed
qed

lemma footer_scan_probe_all:
  "footer_scan head links w =
     (length (takeWhile (\<lambda>out. \<not> alive out) (fst (probe_all head (filter is_absolute (map href links)) w)))
        < length (filter is_absolute (map href links)),
      snd (probe_all head
             (take (Suc (length (takeWhile (\<lambda>out. \<not> alive out)
                       (fst (probe_all head (filter is_absolute (map href links)) w)))))
                (filter is_absolute (map href links))) w))"
proof (induction links arbitrary: w)
  case Nil
  then show ?case by simp
next
  case (Cons link links)
  show ?case
  proof (cases "is_absolute (href link)")
    case False
    with Cons show ?thesis by simp
  next
    case True
    obtain out w1 where h: "head (href link) w = (out, w1)" by (cases "head (href link) w")
    obtain outs w2 where p: "probe_all head (filter is_absolute (map href links)) w1 = (outs, w2)"
      by (cases "probe_all head (filter is_absolute (map href links)) w1")
    show ?thesis
    proof (cases "alive out")
      case True
      with \<open>is_absolute (href link)\<close> h p show ?thesis by (cases out) (auto split: prod.splits)
    next
      case False
      with \<open>is_absolute (href link)\<close> h p Cons.IH [of w1] show ?thesis
        by (cases out) (auto split: prod.splits)
    qed
  qed
qed

lemma descendants_trans:
  "n \<in> set (descendants t) \<Longrightarrow> set (descendants n) \<subseteq> set (descendants t)"
proof (induction t)
  case (Tag name as cs)
  from Tag.prems obtain c where c: "c \<in> set cs" "n = c \<or> n \<in> set (descendants c)" by auto
  from c(2) have "set (descendants n) \<subseteq> set (descendants c)"
    using Tag.IH [OF c(1)] by auto
  with c(1) show ?case by auto
qed simp_all

lemma find_tag_descendant:
  assumes "find_tag t name = Some f"
  shows "f \<in> set (descendants t)"
proof -
  from assms obtain fs where "find_all t name = f # fs"
    by (auto simp: find_tag_def split: list.splits)
  then have "f \<in> set (filter (matches_name name) (descendants t))"
    by (simp add: find_all_def)
  then show ?thesis by simp
qed

lemma footer_hrefs_subset:
  assumes "find_tag soup name = Some footer"
  shows "set (absolute_hrefs footer) \<subseteq> set (absolute_hrefs soup)"
  using descendants_trans [OF find_tag_descendant [OF assms]]
  by (auto simp: absolute_hrefs_def find_all_href_def)


lemma probe_all_pure:
  assumes "\<forall>h s. fst (head h s) = f h"
  shows "fst (probe_all head us w) = map f us"
proof (induction us arbitrary: w)
  case Nil
  then show ?case by simp
next
  case (Cons h us)
  obtain out w1 where h: "head h w = (out, w1)" by (cases "head h w")
  obtain outs w2 where p: "probe_all head us w1 = (outs, w2)" by (cases "probe_all head us w1")
  from assms h have "out = f h" by (metis fst_conv)
  with Cons [of w1] h p show ?case by simp
qed

lemma reported_map:
  "reported us (map f us) = filter (\<lambda>h. dead (f h) \<or> unreachable (f h)) us"
  by (induction us) (simp_all add: reported_def)

section \<open>The quotient as a double\<close>

lemma double_grid:
  assumes "is_double d" and "k \<le> 1074" and "2 ^ 53 / 2 ^ Suc k \<le> \<bar>d\<bar>"
  shows "\<exists>n::int. d = of_int n / 2 ^ k"
proof -
  from assms(1) obtain m :: int and j :: nat where m: "\<bar>m\<bar> < 2 ^ 53"
    and c: "(j \<le> 971 \<and> d = of_int m * 2 ^ j) \<or> (j \<le> 1074 \<and> d = of_int m / 2 ^ j)"
    unfolding is_double_def by blast
  from c show ?thesis
  proof
    assume "j \<le> 971 \<and> d = of_int m * 2 ^ j"
    then have "d = of_int (m * 2 ^ j * 2 ^ k) / 2 ^ k" by simp
    then show ?thesis by blast
  next
    assume a: "j \<le> 1074 \<and> d = of_int m / 2 ^ j"
    show ?thesis
    proof (cases "j \<le> k")
      case True
      then have "(2::rat) ^ k = 2 ^ (k - j) * 2 ^ j" by (simp add: power_add [symmetric])
      with a have "d = of_int (m * 2 ^ (k - j)) / 2 ^ k" by simp
      then show ?thesis by blast
    next
      case False
      then have "Suc k \<le> j" by simp
      then have "(2::rat) ^ Suc k \<le> 2 ^ j" by (rule power_increasing) simp
      then have "1 / (2::rat) ^ j \<le> 1 / 2 ^ Suc k" by (simp add: frac_le)
      then have "of_int \<bar>m\<bar> * (1 / (2::rat) ^ j) \<le> of_int \<bar>m\<bar> * (1 / 2 ^ Suc k)"
        by (rule mult_left_mono) simp
      moreover from m have "(of_int \<bar>m\<bar> :: rat) < 2 ^ 53"
        by (metis of_int_less_numeral_power_cancel_iff)
      then have "of_int \<bar>m\<bar> * (1 / (2::rat) ^ Suc k) < 2 ^ 53 * (1 / 2 ^ Suc k)"
        by (rule mult_strict_right_mono) simp
      moreover from a have "\<bar>d\<bar> = of_int \<bar>m\<bar> * (1 / 2 ^ j)" by (simp add: abs_mult)
      ultimately have "\<bar>d\<bar> < 2 ^ 53 * (1 / 2 ^ Suc k)" by linarith
      with assms(3) show ?thesis by simp
    qed
  qed
qed

lemma is_double_0_1: "is_double double_0_1"
  unfolding is_double_def double_0_1_def
  by (rule exI [of _ 3602879701896397], rule exI [of _ 55]) simp

lemma is_double_below_0_1: "is_double (7205759403792793 / 2 ^ 56)"
  unfolding is_double_def
  by (rule exI [of _ 7205759403792793], rule exI [of _ 56]) simp

lemma is_double_2: "is_double 2"
  unfolding is_double_def
  by (rule exI [of _ 2], rule exI [of _ 0]) simp

lemma is_double_above_2: "is_double (4503599627370497 / 2 ^ 51)"
  unfolding is_double_def
  by (rule exI [of _ 4503599627370497], rule exI [of _ 51]) simp

lemma double_below_0_1:
  assumes "is_double d" and "d < double_0_1"
  shows "d \<le> 7205759403792793 / 2 ^ 56"
proof (cases "2 ^ 53 / 2 ^ Suc 56 \<le> \<bar>d\<bar>")
  case True
  from double_grid [OF assms(1) _ True] obtain n :: int where n: "d = of_int n / 2 ^ 56" by auto
  with assms(2) have "(of_int n :: rat) < 7205759403792794" by (simp add: double_0_1_def)
  then have "n < 7205759403792794" by (metis of_int_less_numeral_iff)
  then have "n \<le> 7205759403792793" by simp
  then have "(of_int n :: rat) \<le> 7205759403792793" by (metis of_int_le_numeral_iff)
  with n show ?thesis by (simp add: divide_right_mono)
next
  case False
  then have "d < 2 ^ 53 / 2 ^ Suc 56" by linarith
  then show ?thesis by simp
qed

lemma double_above_2:
  assumes "is_double d" and "2 < d"
  shows "4503599627370497 / 2 ^ 51 \<le> d"
proof -
  from assms(2) have "2 ^ 53 / 2 ^ Suc 51 \<le> \<bar>d\<bar>" by simp
  from double_grid [OF assms(1) _ this] obtain n :: int where n: "d = of_int n / 2 ^ 51" by auto
  with assms(2) have "(4503599627370496 :: rat) < of_int n" by simp
  then have "4503599627370496 < n" by (metis of_int_numeral of_int_less_iff)
  then have "4503599627370497 \<le> n" by simp
  then have "(4503599627370497 :: rat) \<le> of_int n" by (metis of_int_numeral of_int_le_iff)
  with n show ?thesis by (simp add: divide_right_mono)
qed

lemma nearest_lower_1: fixes q d fl P T t :: rat
  assumes "q + T < t" "\<bar>q - d\<bar> \<le> \<bar>q - P\<bar>" "fl \<le> d" "fl + P < 2 * t" "t < fl" "2 * t < fl + P + 2 * T"
  shows False
  using assms by linarith

lemma nearest_lower_2: fixes q d fl P t :: rat
  assumes "d \<le> P" "\<bar>q - d\<bar> \<le> \<bar>q - fl\<bar>" "t \<le> q" "fl + P < 2 * t" "t < fl"
  shows False
  using assms by linarith

lemma nearest_upper_1: fixes q d N T :: rat
  assumes "2 + T < q" "\<bar>q - d\<bar> \<le> \<bar>q - N\<bar>" "d \<le> 2" "N = 2 + 2 * T" "0 < T"
  shows False
  using assms by linarith

lemma nearest_upper_2: fixes q d N :: rat
  assumes "N \<le> d" "\<bar>q - d\<bar> \<le> \<bar>q - 2\<bar>" "q \<le> 2" "2 < N"
  shows False
  using assms by linarith

lemma double_0_1_bounds:
  "double_0_1 + 7205759403792793 / 2 ^ 56 < 2 * (1 / 10)"
  "1 / 10 < double_0_1"
  "2 * (1 / 10) < double_0_1 + 7205759403792793 / 2 ^ 56 + 2 * (1 / (10 * 2 ^ 52))"
  by (simp_all add: double_0_1_def)

lemma above_2_bounds:
  "(4503599627370497 / 2 ^ 51 :: rat) = 2 + 2 * (1 / 2 ^ 52)"
  "(0 :: rat) < 1 / 2 ^ 52"
  "(2 :: rat) < 4503599627370497 / 2 ^ 51"
  by simp_all

lemma nearest_double_0_1: "nearest_double (1 / 10) double_0_1"
  unfolding nearest_double_def
proof (intro conjI allI impI)
  show "is_double double_0_1" by (rule is_double_0_1)
next
  fix d' assume d': "is_double d'"
  show "\<bar>1 / 10 - double_0_1\<bar> \<le> \<bar>1 / 10 - d'\<bar>"
  proof (cases "d' < double_0_1")
    case True
    from double_below_0_1 [OF d' True] double_0_1_bounds(1,2) show ?thesis by linarith
  next
    case False
    with double_0_1_bounds(2) show ?thesis by linarith
  qed
qed

lemma quotient_below:
  assumes "0 < b" and "b < 2 ^ 52" and "of_nat a / of_nat b < (1 / 10 :: rat)"
  shows "of_nat a / of_nat b + 1 / (10 * 2 ^ 52) < (1 / 10 :: rat)"
proof -
  from assms(1) have bp: "(0 :: rat) < of_nat b" by simp
  from assms(3) bp have "(of_nat a :: rat) * 10 < of_nat b" by (simp add: pos_divide_less_eq)
  then have "(of_nat (a * 10) :: rat) < of_nat b" by simp
  then have "a * 10 < b" by (simp only: of_nat_less_iff)
  then have "a * 10 + 1 \<le> b" by simp
  then have "(of_nat (a * 10 + 1) :: rat) \<le> of_nat b" by (simp only: of_nat_le_iff)
  then have "(of_nat a :: rat) * 10 + 1 \<le> of_nat b" by simp
  with bp have "((of_nat a :: rat) * 10 + 1) / (10 * of_nat b) \<le> of_nat b / (10 * of_nat b)"
    by (simp add: divide_right_mono)
  moreover have "((of_nat a :: rat) * 10 + 1) / (10 * of_nat b) = of_nat a / of_nat b + 1 / (10 * of_nat b)"
    using bp by (simp add: field_simps)
  moreover have "(of_nat b :: rat) / (10 * of_nat b) = 1 / 10" using bp by simp
  moreover have "1 / (10 * 2 ^ 52) < 1 / (10 * of_nat b :: rat)"
  proof -
    from assms(2) have "(of_nat b :: rat) < of_nat (2 ^ 52)" by (simp only: of_nat_less_iff)
    then have "(of_nat b :: rat) < 2 ^ 52" by simp
    with bp show ?thesis by (simp add: frac_less2)
  qed
  ultimately show ?thesis by linarith
qed

lemma quotient_above:
  assumes "0 < b" and "b < 2 ^ 52" and "(2 :: rat) < of_nat a / of_nat b"
  shows "(2 + 1 / 2 ^ 52 :: rat) < of_nat a / of_nat b"
proof -
  from assms(1) have bp: "(0 :: rat) < of_nat b" by simp
  from assms(3) bp have "(2 :: rat) * of_nat b < of_nat a" by (simp add: pos_less_divide_eq)
  then have "(of_nat (2 * b) :: rat) < of_nat a" by simp
  then have "2 * b < a" by (simp only: of_nat_less_iff)
  then have "2 * b + 1 \<le> a" by simp
  then have "(of_nat (2 * b + 1) :: rat) \<le> of_nat a" by (simp only: of_nat_le_iff)
  then have "(2 :: rat) * of_nat b + 1 \<le> of_nat a" by simp
  with bp have "(2 * of_nat b + 1) / of_nat b \<le> (of_nat a / of_nat b :: rat)"
    by (simp add: divide_right_mono)
  moreover have "(2 * of_nat b + 1) / of_nat b = (2 + 1 / of_nat b :: rat)"
    using bp by (simp add: field_simps)
  moreover have "1 / 2 ^ 52 < (1 / of_nat b :: rat)"
  proof -
    from assms(2) have "(of_nat b :: rat) < of_nat (2 ^ 52)" by (simp only: of_nat_less_iff)
    then have "(of_nat b :: rat) < 2 ^ 52" by simp
    with bp show ?thesis by (simp add: frac_less2)
  qed
  ultimately show ?thesis by linarith
qed

lemma ratio_ok_as_doubles:
  assumes near: "nearest_double (of_nat a / of_nat b) d" and b: "0 < b" "b < 2 ^ 52"
  shows "(double_0_1 \<le> d \<and> d \<le> 2) \<longleftrightarrow> ratio_ok (Finite (of_nat a / of_nat b))"
proof -
  let ?q = "of_nat a / of_nat b :: rat"
  from near have d: "is_double d" and n: "\<And>d'. is_double d' \<Longrightarrow> \<bar>?q - d\<bar> \<le> \<bar>?q - d'\<bar>"
    unfolding nearest_double_def by auto
  have lo: "double_0_1 \<le> d \<longleftrightarrow> 1 / 10 \<le> ?q"
  proof
    assume a: "double_0_1 \<le> d"
    show "1 / 10 \<le> ?q"
    proof (rule ccontr)
      assume "\<not> 1 / 10 \<le> ?q"
      then have "?q < 1 / 10" by simp
      from quotient_below [OF b this] n [OF is_double_below_0_1] a double_0_1_bounds
      show False by (rule nearest_lower_1)
    qed
  next
    assume a: "1 / 10 \<le> ?q"
    show "double_0_1 \<le> d"
    proof (rule ccontr)
      assume "\<not> double_0_1 \<le> d"
      then have "d < double_0_1" by simp
      from double_below_0_1 [OF d this] n [OF is_double_0_1] a double_0_1_bounds(1,2)
      show False by (rule nearest_lower_2)
    qed
  qed
  have hi: "d \<le> 2 \<longleftrightarrow> ?q \<le> 2"
  proof
    assume a: "d \<le> 2"
    show "?q \<le> 2"
    proof (rule ccontr)
      assume "\<not> ?q \<le> 2"
      then have "2 < ?q" by simp
      from quotient_above [OF b this] n [OF is_double_above_2] a above_2_bounds(1,2)
      show False by (rule nearest_upper_1)
    qed
  next
    assume a: "?q \<le> 2"
    show "d \<le> 2"
    proof (rule ccontr)
      assume "\<not> d \<le> 2"
      then have "2 < d" by simp
      from double_above_2 [OF d this] n [OF is_double_2] a above_2_bounds(3)
      show False by (rule nearest_upper_2)
    qed
  qed
  from lo hi show ?thesis by simp
qed

section \<open>The pipeline on a fetched document\<close>

lemma verify_template_fetched:
  assumes get: "requests_get lib u w = (Returns resp, w1)" and ok: "status_code resp = 200"
    and soup: "BeautifulSoup lib (resp_text resp) = Inr soup"
    and glob: "probe_all (requests_head lib) (absolute_hrefs soup) w1 = (outs, w2)"
    and noesc: "\<forall>out \<in> set outs. \<not> escapes out"
    and foot: "footer_checks (ucd lib) (requests_head lib) (find_tag soup (lit ''footer'')) w2 =
                 ((flv, faf), w3)"
  shows "verify_template lib u w =
     (Inr (build_result u (resp_text resp)
        (is_test_template_of (lower (ucd lib) (get_text (ucd lib) soup)))
        (image_text_ratio_of
           (sum_list (map (\<lambda>img. length (str_tag lib img)) (find_all soup (lit ''img''))))
           (length (lower (ucd lib) (get_text (ucd lib) soup))))
        (reported (absolute_hrefs soup) outs) flv faf), w3)"
proof -
  from glob noesc
  have "check_links (requests_head lib) (find_all_href soup (lit ''a'')) [] w1 =
          (Inr (reported (absolute_hrefs soup) outs), w2)"
    using check_links_acc [of "requests_head lib" "find_all_href soup (lit ''a'')" w1 "[]"]
    by (simp add: absolute_hrefs_def)
  with get ok soup foot show ?thesis
    by (simp add: verify_template_def run_checks_def Let_def)
qed

lemma build_result_simps:
  "status (build_result u html t ratio broken flv faf) = lit ''success''"
  "url (build_result u html t ratio broken flv faf) = u"
  "content_length (build_result u html t ratio broken flv faf) = length html"
  "preview_snippet (build_result u html t ratio broken flv faf) = take 300 html"
  "is_test_template (checks (build_result u html t ratio broken flv faf)) = t"
  "image_text_ratio (checks (build_result u html t ratio broken flv faf)) = ratio"
  "image_text_ratio_ok (checks (build_result u html t ratio broken flv faf)) = ratio_ok ratio"
  "broken_links (checks (build_result u html t ratio broken flv faf)) = broken"
  "all_links_valid (checks (build_result u html t ratio broken flv faf)) = (broken = [])"
  "footer_link_valid (checks (build_result u html t ratio broken flv faf)) = flv"
  "footer_address_found (checks (build_result u html t ratio broken flv faf)) = faf"
  "verification (build_result u html t ratio broken flv faf) = fst (verdict (checks (build_result u html t ratio broken flv faf)))"
  "message (build_result u html t ratio broken flv faf) = snd (verdict (checks (build_result u html t ratio broken flv faf)))"
  by (simp_all add: build_result_def Let_def)

lemma verdict_rules:
  "(fst (verdict c), snd (verdict c)) =
     (if is_test_template c then
        (lit ''fail'', lit ''The template appears to be a test/dummy template.'')
      else if \<not> all_links_valid c then
        (lit ''fail'', lit ''One or more clickable links are broken.'')
      else if \<not> footer_link_valid c \<or> \<not> footer_address_found c then
        (lit ''fail'',
         lit ''Footer is missing a valid clickable website link or full company address.'')
      else if \<not> image_text_ratio_ok c then
        (lit ''warning'', lit ''Image to text ratio is not balanced.'')
      else
        (lit ''pass'', lit ''Template passed all basic standard checks.''))"
  by (simp add: verdict_def)

lemma verify_template_returns:
  assumes get: "requests_get lib u w = (Returns resp, w1)" and ok: "status_code resp = 200"
    and soup: "BeautifulSoup lib (resp_text resp) = Inr soup"
    and glob: "probe_all (requests_head lib) (absolute_hrefs soup) w1 = (outs, w2)"
    and noesc: "\<forall>out \<in> set outs. \<not> escapes out"
  obtains flv faf w3 where
    "footer_checks (ucd lib) (requests_head lib) (find_tag soup (lit ''footer'')) w2 = ((flv, faf), w3)"
    "verify_template lib u w =
     (Inr (build_result u (resp_text resp)
        (is_test_template_of (lower (ucd lib) (get_text (ucd lib) soup)))
        (image_text_ratio_of
           (sum_list (map (\<lambda>img. length (str_tag lib img)) (find_all soup (lit ''img''))))
           (length (lower (ucd lib) (get_text (ucd lib) soup))))
        (reported (absolute_hrefs soup) outs) flv faf), w3)"
proof -
  obtain flv faf w3 where
    f: "footer_checks (ucd lib) (requests_head lib) (find_tag soup (lit ''footer'')) w2 = ((flv, faf), w3)"
    by (metis prod.exhaust)
  from verify_template_fetched [OF get ok soup glob noesc f] f that show thesis by blast
qed

lemma verify_template_fields:
  assumes get: "requests_get lib u w = (Returns resp, w1)" and ok: "status_code resp = 200"
    and soup: "BeautifulSoup lib (resp_text resp) = Inr soup"
    and glob: "probe_all (requests_head lib) (absolute_hrefs soup) w1 = (outs, w2)"
    and noesc: "\<forall>out \<in> set outs. \<not> escapes out"
  obtains r flv faf w3 where
    "verify_template lib u w = (Inr r, w3)"
    "footer_checks (ucd lib) (requests_head lib) (find_tag soup (lit ''footer'')) w2 = ((flv, faf), w3)"
    "is_test_template (checks r) = is_test_template_of (lower (ucd lib) (get_text (ucd lib) soup))"
    "image_text_ratio (checks r) =
       image_text_ratio_of
         (sum_list (map (\<lambda>img. length (str_tag lib img)) (find_all soup (lit ''img''))))
         (length (lower (ucd lib) (get_text (ucd lib) soup)))"
    "image_text_ratio_ok (checks r) = ratio_ok (image_text_ratio (checks r))"
    "broken_links (checks r) = reported (absolute_hrefs soup) outs"
    "all_links_valid (checks r) = (broken_links (checks r) = [])"
    "footer_link_valid (checks r) = flv"
    "footer_address_found (checks r) = faf"
    "(verification r, message r) = (fst (verdict (checks r)), snd (verdict (checks r)))"
proof -
  from get ok soup glob noesc obtain flv faf w3 where
    f: "footer_checks (ucd lib) (requests_head lib) (find_tag soup (lit ''footer'')) w2 = ((flv, faf), w3)"
    and v: "verify_template lib u w =
     (Inr (build_result u (resp_text resp)
        (is_test_template_of (lower (ucd lib) (get_text (ucd lib) soup)))
        (image_text_ratio_of
           (sum_list (map (\<lambda>img. length (str_tag lib img)) (find_all soup (lit ''img''))))
           (length (lower (ucd lib) (get_text (ucd lib) soup))))
        (reported (absolute_hrefs soup) outs) flv faf), w3)"
    by (rule verify_template_returns)
  show thesis
    by (rule that [OF v f]) (simp_all add: build_result_simps)
qed

lemma verify_template_raises:
  assumes get: "requests_get lib u w = (Returns resp, w1)" and ok: "status_code resp = 200"
    and soup: "BeautifulSoup lib (resp_text resp) = Inr soup"
    and esc: "\<exists>out \<in> set (fst (probe_all (requests_head lib) (absolute_hrefs soup) w1)). escapes out"
  shows "\<exists>e w'. verify_template lib u w = (Inl (Unhandled e), w')"
proof -
  from esc obtain e w' where
    "check_links (requests_head lib) (find_all_href soup (lit ''a'')) [] w1 = (Inl (Unhandled e), w')"
    using check_links_raises [of "requests_head lib" "find_all_href soup (lit ''a'')" w1 "[]"]
    by (auto simp: absolute_hrefs_def)
  with get ok soup show ?thesis
    by (simp add: verify_template_def run_checks_def Let_def)
qed

lemma parse_exception_escapes:
  assumes "requests_get lib u w = (Returns resp, w1)" and "status_code resp = 200"
    and "BeautifulSoup lib (resp_text resp) = Inl e"
  shows "verify_template lib u w = (Inl (Unhandled e), w1)"
  using assms by (simp add: verify_template_def)

lemma verify_template_result:
  assumes "verify_template lib u w = (Inr r, w')"
  shows "\<exists>resp w1 soup. requests_get lib u w = (Returns resp, w1) \<and> status_code resp = 200 \<and>
           BeautifulSoup lib (resp_text resp) = Inr soup \<and>
           (\<forall>out \<in> set (fst (probe_all (requests_head lib) (absolute_hrefs soup) w1)). \<not> escapes out)"
proof -
  obtain out w1 where g: "requests_get lib u w = (out, w1)" by (cases "requests_get lib u w")
  with assms obtain resp where out: "out = Returns resp" and ok: "status_code resp = 200"
    by (cases out) (auto simp: verify_template_def split: if_splits)
  with assms g obtain soup where p: "BeautifulSoup lib (resp_text resp) = Inr soup"
    by (cases "BeautifulSoup lib (resp_text resp)") (auto simp: verify_template_def)
  from assms g out ok p have "run_checks lib u (resp_text resp) soup w1 = (Inr r, w')"
    by (simp add: verify_template_def)
  then obtain b w2 where
    "check_links (requests_head lib) (find_all_href soup (lit ''a'')) [] w1 = (Inr b, w2)"
    by (auto simp: run_checks_def Let_def split: prod.splits sum.splits)
  from check_links_escape [OF this]
  have "\<forall>out \<in> set (fst (probe_all (requests_head lib) (absolute_hrefs soup) w1)). \<not> escapes out"
    by (simp add: absolute_hrefs_def)
  with g out ok p show ?thesis by blast
qed

lemma fetch_status_error:
  assumes "requests_get lib u w = (Returns resp, w1)" and "status_code resp \<noteq> 200"
  shows "verify_template lib u w =
     (Inl (HTTPException 400 (lit ''Unable to fetch URL, status code: '' @ str_int (status_code resp))), w1)"
  using assms by (simp add: verify_template_def)

lemma fetch_network_error:
  assumes "requests_get lib u w = (RequestException e, w1)"
  shows "verify_template lib u w = (Inl (HTTPException 500 (lit ''Request failed: '' @ e)), w1)"
  using assms by (simp add: verify_template_def)

section \<open>The verdict\<close>

text \<open>
  C1. On every document fetched with status 200 and parsed whose link probes all return
  or raise within the \<open>requests\<close> hierarchy, the endpoint returns a result whose
  verdict and message are those of the first rule that applies, in the order: test
  content, a broken link, an incomplete footer, an unbalanced ratio, pass. A test
  template with a broken link therefore gets the test-template message.
\<close>

theorem verdict_precedence:
  assumes get: "requests_get lib u w = (Returns resp, w1)" and ok: "status_code resp = 200"
    and soup: "BeautifulSoup lib (resp_text resp) = Inr soup"
    and glob: "probe_all (requests_head lib) (absolute_hrefs soup) w1 = (outs, w2)"
    and noesc: "\<forall>out \<in> set outs. \<not> escapes out"
  shows "\<exists>r w'. verify_template lib u w = (Inr r, w') \<and>
     (verification r, message r) =
       (if is_test_template (checks r) then
          (lit ''fail'', lit ''The template appears to be a test/dummy template.'')
        else if broken_links (checks r) \<noteq> [] then
          (lit ''fail'', lit ''One or more clickable links are broken.'')
        else if \<not> footer_link_valid (checks r) \<or> \<not> footer_address_found (checks r) then
          (lit ''fail'',
           lit ''Footer is missing a valid clickable website link or full company address.'')
        else if \<not> image_text_ratio_ok (checks r) then
          (lit ''warning'', lit ''Image to text ratio is not balanced.'')
        else
          (lit ''pass'', lit ''Template passed all basic standard checks.'')) \<and>
     (is_test_template (checks r) \<and> broken_links (checks r) \<noteq> [] \<longrightarrow>
        verification r = lit ''fail'' \<and>
        message r = lit ''The template appears to be a test/dummy template.'')"
proof -
  from get ok soup glob noesc obtain r flv faf w3 where
    v: "verify_template lib u w = (Inr r, w3)" and
    a: "all_links_valid (checks r) = (broken_links (checks r) = [])" and
    m: "(verification r, message r) = (fst (verdict (checks r)), snd (verdict (checks r)))"
    by (rule verify_template_fields)
  have p: "(verification r, message r) =
       (if is_test_template (checks r) then
          (lit ''fail'', lit ''The template appears to be a test/dummy template.'')
        else if broken_links (checks r) \<noteq> [] then
          (lit ''fail'', lit ''One or more clickable links are broken.'')
        else if \<not> footer_link_valid (checks r) \<or> \<not> footer_address_found (checks r) then
          (lit ''fail'',
           lit ''Footer is missing a valid clickable website link or full company address.'')
        else if \<not> image_text_ratio_ok (checks r) then
          (lit ''warning'', lit ''Image to text ratio is not balanced.'')
        else
          (lit ''pass'', lit ''Template passed all basic standard checks.''))"
    unfolding m verdict_rules a by simp
  then have q: "is_test_template (checks r) \<and> broken_links (checks r) \<noteq> [] \<longrightarrow>
        verification r = lit ''fail'' \<and>
        message r = lit ''The template appears to be a test/dummy template.''"
    by (auto split: if_splits)
  from v p q show ?thesis by (intro exI [of _ r] exI [of _ w3] conjI)
qed

theorem verdict_precedence_witness:
  "\<exists>r w'. verify_template (example_lib trial_html trial) (lit ''https://mail.example/trial'') [] =
            (Inr r, w') \<and>
     is_test_template (checks r) \<and> broken_links (checks r) = [lit ''http://bad.example''] \<and>
     footer_link_valid (checks r) \<and> footer_address_found (checks r) \<and>
     verification r = lit ''fail'' \<and>
     message r = lit ''The template appears to be a test/dummy template.''"
proof -
  let ?lib = "example_lib trial_html trial"
  let ?u = "lit ''https://mail.example/trial''"
  have get: "requests_get ?lib ?u [] = (Returns \<lparr>status_code = 200, resp_text = trial_html\<rparr>, [?u])"
    by (simp add: example_lib_def page_def)
  have ok: "status_code \<lparr>status_code = 200, resp_text = trial_html\<rparr> = 200" by simp
  have soup: "BeautifulSoup ?lib (resp_text \<lparr>status_code = 200, resp_text = trial_html\<rparr>) = Inr trial"
    by (simp add: example_lib_def)
  have glob: "probe_all (requests_head ?lib) (absolute_hrefs trial) [?u] =
      ([answer 404, answer 200], [?u, lit ''http://bad.example'', lit ''https://corp.example''])"
    by code_simp
  have noesc: "\<forall>out \<in> set [answer 404, answer 200]. \<not> escapes out"
    by (simp add: answer_def)
  from verdict_precedence [OF get ok soup glob noesc] obtain r w' where
    v: "verify_template ?lib ?u [] = (Inr r, w')" and
    p: "is_test_template (checks r) \<and> broken_links (checks r) \<noteq> [] \<longrightarrow>
        verification r = lit ''fail'' \<and>
        message r = lit ''The template appears to be a test/dummy template.''"
    by blast
  from v have r: "r = projr (fst (verify_template ?lib ?u []))" by simp
  have e: "is_test_template (checks (projr (fst (verify_template ?lib ?u []))))"
    "broken_links (checks (projr (fst (verify_template ?lib ?u [])))) = [lit ''http://bad.example'']"
    "footer_link_valid (checks (projr (fst (verify_template ?lib ?u []))))"
    "footer_address_found (checks (projr (fst (verify_template ?lib ?u []))))"
    by code_simp+
  from e have e': "is_test_template (checks r)" "broken_links (checks r) = [lit ''http://bad.example'']"
    "footer_link_valid (checks r)" "footer_address_found (checks r)"
    unfolding r [symmetric] by simp_all
  with p have "verification r = lit ''fail''"
    "message r = lit ''The template appears to be a test/dummy template.''"
    by simp_all
  with v e' show ?thesis by (intro exI [of _ r] exI [of _ w'] conjI)
qed

section \<open>Errors\<close>

text \<open>
  C2. The fetch of the invitation returns status 200, the body is parsed, and the probe
  of its first link raises an exception from outside the \<open>requests\<close> hierarchy.
  Neither handler of \<open>verify_template\<close> catches it: the call ends with that exception,
  after two requests and before the second link is probed, and returns no result.
\<close>

theorem probe_exception_escapes:
  "requests_get (example_lib invitation_html invitation) (lit ''https://mail.example/invitation'') [] =
     (Returns \<lparr>status_code = 200, resp_text = invitation_html\<rparr>,
      [lit ''https://mail.example/invitation'']) \<and>
   BeautifulSoup (example_lib invitation_html invitation) invitation_html = Inr invitation \<and>
   absolute_hrefs invitation = [lit ''http://odd.example'', lit ''https://shop.example''] \<and>
   verify_template (example_lib invitation_html invitation) (lit ''https://mail.example/invitation'') [] =
     (Inl (Unhandled (lit ''label empty or too long'')),
      [lit ''https://mail.example/invitation'', lit ''http://odd.example''])"
  by code_simp

section \<open>Test content\<close>

text \<open>
  C3, as stated, fails on the wrapped page. Its text content is not whitespace-collapsed:
  the line break and the spaces inside the text node are kept, so the collapsed text has
  the keyword \<open>lorem ipsum\<close> as a contiguous run and \<open>is_test_template\<close> is false.
\<close>

theorem test_content_detection_counterexample:
  "lower plain_tables (get_text plain_tables wrapped) =
     lit ''lorem'' @ [newline] @ lit ''   ipsum dolor sit amet'' \<and>
   whitespace_collapsed plain_tables (lower plain_tables (get_text plain_tables wrapped)) =
     lit ''lorem ipsum dolor sit amet'' \<and>
   contains (whitespace_collapsed plain_tables (lower plain_tables (get_text plain_tables wrapped)))
     (lit ''lorem ipsum'') \<and>
   fst (verify_template (example_lib wrapped_html wrapped) (lit ''https://mail.example/wrapped'') []) =
     Inr (projr (fst
       (verify_template (example_lib wrapped_html wrapped) (lit ''https://mail.example/wrapped'') []))) \<and>
   is_test_template (checks (projr (fst
     (verify_template (example_lib wrapped_html wrapped) (lit ''https://mail.example/wrapped'') [])))) =
     False"
  by code_simp

text \<open>
  C3, amended. On every document fetched and parsed whose link probes return or raise
  within the \<open>requests\<close> hierarchy, \<open>is_test_template\<close> holds exactly when the text
  content has one of the seven keywords as a contiguous run of characters, where the
  text content is the text nodes in document order, each trimmed, the empty ones
  dropped, the rest joined by single spaces, and the whole lowercased; whitespace inside
  a text node is left as written. No word boundary is asked for, so a text content with
  \<open>latest\<close> in it is detected through \<open>test\<close>.
\<close>

theorem test_content_detection:
  assumes get: "requests_get lib u w = (Returns resp, w1)" and ok: "status_code resp = 200"
    and soup: "BeautifulSoup lib (resp_text resp) = Inr soup"
    and glob: "probe_all (requests_head lib) (absolute_hrefs soup) w1 = (outs, w2)"
    and noesc: "\<forall>out \<in> set outs. \<not> escapes out"
    and ts: "list_all2 (trimmed (ucd lib)) (all_strings soup) ts"
    and tc: "text_content = lower (ucd lib) (join (lit '' '') (filter (\<lambda>s. s \<noteq> []) ts))"
  shows "\<exists>r w'. verify_template lib u w = (Inr r, w') \<and>
     (is_test_template (checks r) \<longleftrightarrow>
        (\<exists>k \<in> {lit ''test'', lit ''dummy'', lit ''lorem ipsum'', lit ''sample template'',
                 lit ''placeholder'', lit ''example'', lit ''this is a test''}.
           \<exists>p q. text_content = p @ k @ q)) \<and>
     ((\<exists>p q. text_content = p @ lit ''latest'' @ q) \<longrightarrow> is_test_template (checks r))"
proof -
  from get ok soup glob noesc obtain r flv faf w3 where
    v: "verify_template lib u w = (Inr r, w3)" and
    t: "is_test_template (checks r) = is_test_template_of (lower (ucd lib) (get_text (ucd lib) soup))"
    by (rule verify_template_fields)
  have c: "lower (ucd lib) (get_text (ucd lib) soup) = text_content"
    unfolding tc get_text_trimmed [OF ts] ..
  have k: "set TEST_KEYWORDS = {lit ''test'', lit ''dummy'', lit ''lorem ipsum'', lit ''sample template'',
                 lit ''placeholder'', lit ''example'', lit ''this is a test''}"
    by (simp add: TEST_KEYWORDS_def)
  have a: "is_test_template (checks r) \<longleftrightarrow>
        (\<exists>k \<in> {lit ''test'', lit ''dummy'', lit ''lorem ipsum'', lit ''sample template'',
                 lit ''placeholder'', lit ''example'', lit ''this is a test''}.
           \<exists>p q. text_content = p @ k @ q)"
    unfolding t c is_test_template_of_iff k ..
  have b: "(\<exists>p q. text_content = p @ lit ''latest'' @ q) \<longrightarrow> is_test_template (checks r)"
  proof
    assume "\<exists>p q. text_content = p @ lit ''latest'' @ q"
    then obtain p q where "text_content = p @ lit ''latest'' @ q" by blast
    then have "text_content = (p @ lit ''la'') @ lit ''test'' @ q" by (simp add: lit_def)
    then have "\<exists>p q. text_content = p @ lit ''test'' @ q" by blast
    then show "is_test_template (checks r)" unfolding a by blast
  qed
  from v a b show ?thesis by (intro exI [of _ r] exI [of _ w3] conjI)
qed

theorem test_content_detection_witness:
  "all_strings bulletin =
     [[newline] @ lit ''  '' @ bulletin_headline @ [nbsp, next_line, newline], [newline], lit '' ''] \<and>
   list_all2 (trimmed plain_tables) (all_strings bulletin) [bulletin_headline, [], []] \<and>
   lower plain_tables (join (lit '' '') (filter (\<lambda>s. s \<noteq> []) [bulletin_headline, [], []])) =
     lit ''latest '' @ [e_acute] @ lit ''dition'' \<and>
   (\<exists>r w'. verify_template (example_lib bulletin_html bulletin) (lit ''https://mail.example/bulletin'') [] =
             (Inr r, w') \<and>
      is_test_template (checks r))"
proof -
  let ?lib = "example_lib bulletin_html bulletin"
  let ?u = "lit ''https://mail.example/bulletin''"
  have get: "requests_get ?lib ?u [] = (Returns \<lparr>status_code = 200, resp_text = bulletin_html\<rparr>, [?u])"
    by (simp add: example_lib_def page_def)
  have ok: "status_code \<lparr>status_code = 200, resp_text = bulletin_html\<rparr> = 200" by simp
  have soup: "BeautifulSoup ?lib (resp_text \<lparr>status_code = 200, resp_text = bulletin_html\<rparr>) = Inr bulletin"
    by (simp add: example_lib_def)
  have glob: "probe_all (requests_head ?lib) (absolute_hrefs bulletin) [?u] = ([], [?u])"
    by code_simp
  have noesc: "\<forall>out \<in> set []. \<not> escapes out" by simp
  have uc: "ucd ?lib = plain_tables" by (simp add: example_lib_def)
  have nodes: "all_strings bulletin =
     [[newline] @ lit ''  '' @ bulletin_headline @ [nbsp, next_line, newline], [newline], lit '' '']"
    by code_simp
  have "map (strip plain_tables) (all_strings bulletin) = [bulletin_headline, [], []]"
    by code_simp
  with trimmed_strip_all [of plain_tables "all_strings bulletin"]
  have ts: "list_all2 (trimmed plain_tables) (all_strings bulletin) [bulletin_headline, [], []]"
    by simp
  have tc: "lower plain_tables (join (lit '' '') (filter (\<lambda>s. s \<noteq> []) [bulletin_headline, [], []])) =
     lit ''latest '' @ [e_acute] @ lit ''dition''"
    by code_simp
  have "lit ''latest '' @ [e_acute] @ lit ''dition'' = [] @ lit ''latest'' @ (lit '' '' @ [e_acute] @ lit ''dition'')"
    by (simp add: lit_def)
  then have l: "\<exists>p q. lit ''latest '' @ [e_acute] @ lit ''dition'' = p @ lit ''latest'' @ q" by blast
  from test_content_detection [OF get ok soup glob noesc, unfolded uc, OF ts tc [symmetric]] l
  have "\<exists>r w'. verify_template ?lib ?u [] = (Inr r, w') \<and> is_test_template (checks r)"
    by blast
  with nodes ts tc show ?thesis by (intro conjI)
qed

section \<open>The image to text ratio\<close>

text \<open>
  C4. On every document fetched and parsed whose link probes return or raise within the
  \<open>requests\<close> hierarchy, \<open>image_text_ratio\<close> is the sum of the lengths of the serialised
  image elements divided by the length of the text content (the text nodes trimmed, the
  empty ones dropped, the rest joined by spaces, the whole lowercased), and infinity
  when the text content is empty; \<open>image_text_ratio_ok\<close> holds exactly when the ratio is
  a number in the closed interval from 0.1 to 2.0, so never for infinity.
\<close>

theorem image_text_ratio_spec:
  assumes get: "requests_get lib u w = (Returns resp, w1)" and ok: "status_code resp = 200"
    and soup: "BeautifulSoup lib (resp_text resp) = Inr soup"
    and glob: "probe_all (requests_head lib) (absolute_hrefs soup) w1 = (outs, w2)"
    and noesc: "\<forall>out \<in> set outs. \<not> escapes out"
    and ts: "list_all2 (trimmed (ucd lib)) (all_strings soup) ts"
    and tc: "text_content = lower (ucd lib) (join (lit '' '') (filter (\<lambda>s. s \<noteq> []) ts))"
  shows "\<exists>r w'. verify_template lib u w = (Inr r, w') \<and>
     image_text_ratio (checks r) =
       (if length text_content = 0 then Infinity
        else Finite (of_nat (sum_list (map (\<lambda>img. length (str_tag lib img)) (find_all soup (lit ''img''))))
                       / of_nat (length text_content))) \<and>
     (image_text_ratio_ok (checks r) \<longleftrightarrow>
        (\<exists>q. image_text_ratio (checks r) = Finite q \<and> 1 / 10 \<le> q \<and> q \<le> 2))"
proof -
  from get ok soup glob noesc obtain r flv faf w3 where
    v: "verify_template lib u w = (Inr r, w3)" and
    i: "image_text_ratio (checks r) =
       image_text_ratio_of
         (sum_list (map (\<lambda>img. length (str_tag lib img)) (find_all soup (lit ''img''))))
         (length (lower (ucd lib) (get_text (ucd lib) soup)))" and
    o: "image_text_ratio_ok (checks r) = ratio_ok (image_text_ratio (checks r))"
    by (rule verify_template_fields)
  have c: "lower (ucd lib) (get_text (ucd lib) soup) = text_content"
    unfolding tc get_text_trimmed [OF ts] ..
  have a: "image_text_ratio (checks r) =
       (if length text_content = 0 then Infinity
        else Finite (of_nat (sum_list (map (\<lambda>img. length (str_tag lib img)) (find_all soup (lit ''img''))))
                       / of_nat (length text_content)))"
    unfolding i c by (simp add: image_text_ratio_of_def)
  from o have b: "image_text_ratio_ok (checks r) \<longleftrightarrow>
        (\<exists>q. image_text_ratio (checks r) = Finite q \<and> 1 / 10 \<le> q \<and> q \<le> 2)"
    by (cases "image_text_ratio (checks r)") simp_all
  from v a b show ?thesis by (intro exI [of _ r] exI [of _ w3] conjI)
qed

theorem image_text_ratio_spec_witness:
  "(all_strings poster = [[nbsp]] \<and>
    list_all2 (trimmed plain_tables) (all_strings poster) [[]] \<and>
    (\<exists>r w'. verify_template (example_lib poster_html poster) (lit ''https://mail.example/poster'') [] =
              (Inr r, w') \<and>
       image_text_ratio (checks r) = Infinity \<and> image_text_ratio_ok (checks r) = False)) \<and>
   (list_all2 (trimmed plain_tables) (all_strings newsletter)
      [lit ''Welcome to our Spring newsletter'', [], lit ''Shop'', [], lit ''Contact'',
       lit ''123 Main Street, Springfield, IL 62704'', lit ''Home'', []] \<and>
    (\<exists>r w'. verify_template (example_lib newsletter_html newsletter) (lit ''https://mail.example/news'') [] =
              (Inr r, w') \<and>
       image_text_ratio (checks r) = Finite (18 / 89) \<and> image_text_ratio_ok (checks r)))"
proof -
  let ?lib = "example_lib poster_html poster"
  let ?u = "lit ''https://mail.example/poster''"
  have get: "requests_get ?lib ?u [] = (Returns \<lparr>status_code = 200, resp_text = poster_html\<rparr>, [?u])"
    by (simp add: example_lib_def page_def)
  have ok: "status_code \<lparr>status_code = 200, resp_text = poster_html\<rparr> = 200" by simp
  have soup: "BeautifulSoup ?lib (resp_text \<lparr>status_code = 200, resp_text = poster_html\<rparr>) = Inr poster"
    by (simp add: example_lib_def)
  have glob: "probe_all (requests_head ?lib) (absolute_hrefs poster) [?u] = ([], [?u])"
    by code_simp
  have noesc: "\<forall>out \<in> set []. \<not> escapes out" by simp
  have uc: "ucd ?lib = plain_tables" by (simp add: example_lib_def)
  have nodes: "all_strings poster = [[nbsp]]" by code_simp
  have "map (strip plain_tables) (all_strings poster) = [[]]" by code_simp
  with trimmed_strip_all [of plain_tables "all_strings poster"]
  have ts: "list_all2 (trimmed plain_tables) (all_strings poster) [[]]" by simp
  have tc: "[] = lower plain_tables (join (lit '' '') (filter (\<lambda>s. s \<noteq> []) [[]]))" by code_simp
  from image_text_ratio_spec [OF get ok soup glob noesc, unfolded uc, OF ts tc]
  have A: "\<exists>r w'. verify_template ?lib ?u [] = (Inr r, w') \<and>
      image_text_ratio (checks r) = Infinity \<and> image_text_ratio_ok (checks r) = False"
    by auto
  let ?lib' = "example_lib newsletter_html newsletter"
  let ?u' = "lit ''https://mail.example/news''"
  let ?ts = "[lit ''Welcome to our Spring newsletter'', [], lit ''Shop'', [], lit ''Contact'',
       lit ''123 Main Street, Springfield, IL 62704'', lit ''Home'', []]"
  have get': "requests_get ?lib' ?u' [] = (Returns \<lparr>status_code = 200, resp_text = newsletter_html\<rparr>, [?u'])"
    by (simp add: example_lib_def page_def)
  have ok': "status_code \<lparr>status_code = 200, resp_text = newsletter_html\<rparr> = 200" by simp
  have soup': "BeautifulSoup ?lib' (resp_text \<lparr>status_code = 200, resp_text = newsletter_html\<rparr>) = Inr newsletter"
    by (simp add: example_lib_def)
  have glob': "probe_all (requests_head ?lib') (absolute_hrefs newsletter) [?u'] =
      ([answer 200, answer 200], [?u', lit ''https://shop.example'', lit ''https://corp.example''])"
    by code_simp
  have noesc': "\<forall>out \<in> set [answer 200, answer 200]. \<not> escapes out" by (simp add: answer_def)
  have uc': "ucd ?lib' = plain_tables" by (simp add: example_lib_def)
  have "map (strip plain_tables) (all_strings newsletter) = ?ts" by code_simp
  with trimmed_strip_all [of plain_tables "all_strings newsletter"]
  have ts': "list_all2 (trimmed plain_tables) (all_strings newsletter) ?ts" by simp
  let ?tc = "lit ''welcome to our spring newsletter shop contact 123 main street, springfield, il 62704 home''"
  have tc': "?tc = lower plain_tables (join (lit '' '') (filter (\<lambda>s. s \<noteq> []) ?ts))"
    by code_simp
  have len: "length ?tc = 89" by (simp add: lit_def)
  have img: "sum_list (map (\<lambda>img. length (str_tag ?lib' img)) (find_all newsletter (lit ''img''))) = 18"
    by code_simp
  from image_text_ratio_spec [OF get' ok' soup' glob' noesc', unfolded uc', OF ts' tc']
  obtain r w' where v: "verify_template ?lib' ?u' [] = (Inr r, w')"
    and i: "image_text_ratio (checks r) =
       (if length ?tc = 0 then Infinity
        else Finite (of_nat (sum_list (map (\<lambda>img. length (str_tag ?lib' img)) (find_all newsletter (lit ''img''))))
                       / of_nat (length ?tc)))"
    and o: "image_text_ratio_ok (checks r) \<longleftrightarrow>
        (\<exists>q. image_text_ratio (checks r) = Finite q \<and> 1 / 10 \<le> q \<and> q \<le> 2)"
    by blast
  from i have i': "image_text_ratio (checks r) = Finite (18 / 89)"
    unfolding len img by simp
  have "(1::rat) / 10 \<le> 18 / 89 \<and> (18::rat) / 89 \<le> 2" by simp
  with i' have "\<exists>q. image_text_ratio (checks r) = Finite q \<and> 1 / 10 \<le> q \<and> q \<le> 2"
    by (intro exI [of _ "18 / 89"] conjI) simp_all
  with o have "image_text_ratio_ok (checks r)" by (rule iffD2)
  with v i' have B: "\<exists>r w'. verify_template ?lib' ?u' [] = (Inr r, w') \<and>
      image_text_ratio (checks r) = Finite (18 / 89) \<and> image_text_ratio_ok (checks r)"
    by (intro exI [of _ r] exI [of _ w'] conjI)
  from nodes ts A ts' B show ?thesis by (intro conjI)
qed

section \<open>The anchors\<close>

text \<open>
  C5, as stated, fails on the catalogue: its stylesheet link is an element with an href
  attribute, the collection of anchors is empty, the dead URL is never probed and no
  link is reported.
\<close>

theorem anchor_collection_counterexample:
  "filter has_href (descendants catalogue) =
     [element ''link'' [(''rel'', ''stylesheet''), (''href'', ''http://bad.example'')] []] \<and>
   find_all_href catalogue (lit ''a'') = [] \<and>
   probes (lit ''http://bad.example'') = answer 404 \<and>
   broken_links (checks (projr (fst
     (verify_template (example_lib catalogue_html catalogue) (lit ''https://mail.example/catalogue'') [])))) =
     [] \<and>
   snd (verify_template (example_lib catalogue_html catalogue) (lit ''https://mail.example/catalogue'') []) =
     [lit ''https://mail.example/catalogue'']"
  by code_simp

text \<open>
  C5, amended. The collection of anchors of a tag consists of the \<open>a\<close> elements below it
  that carry an href attribute, in document order, each with the value of the attribute
  as the tree holds it. The loop over the links runs over the collection of the whole
  document, the loop of the footer over the collection of the footer element, which is
  part of the former.
\<close>

theorem anchor_collection:
  assumes get: "requests_get lib u w = (Returns resp, w1)" and ok: "status_code resp = 200"
    and soup: "BeautifulSoup lib (resp_text resp) = Inr soup"
    and glob: "probe_all (requests_head lib) (absolute_hrefs soup) w1 = (outs, w2)"
    and noesc: "\<forall>out \<in> set outs. \<not> escapes out"
  shows "find_all_href soup (lit ''a'') =
       filter (\<lambda>t. matches_name (lit ''a'') t \<and> has_href t) (descendants soup) \<and>
     (\<forall>n as cs v. map_of as (lit ''href'') = Some v \<longrightarrow> href (Tag n as cs) = v) \<and>
     (\<exists>r w'. verify_template lib u w = (Inr r, w') \<and>
        check_links (requests_head lib) (find_all_href soup (lit ''a'')) [] w1 =
          (Inr (broken_links (checks r)), w2) \<and>
        (case find_tag soup (lit ''footer'') of
           None \<Rightarrow> footer_link_valid (checks r) = False \<and> w' = w2
         | Some footer \<Rightarrow>
             footer_scan (requests_head lib) (find_all_href footer (lit ''a'')) w2 =
               (footer_link_valid (checks r), w') \<and>
             set (find_all_href footer (lit ''a'')) \<subseteq> set (find_all_href soup (lit ''a''))))"
proof -
  have m: "matches_href (lit ''a'') = (\<lambda>t. matches_name (lit ''a'') t \<and> has_href t)"
  proof
    fix t show "matches_href (lit ''a'') t = (matches_name (lit ''a'') t \<and> has_href t)"
      by (cases t) simp_all
  qed
  have A: "find_all_href soup (lit ''a'') =
      filter (\<lambda>t. matches_name (lit ''a'') t \<and> has_href t) (descendants soup)"
    by (simp add: find_all_href_def m)
  have B: "\<forall>n as cs v. map_of as (lit ''href'') = Some v \<longrightarrow> href (Tag n as cs) = v" by simp
  from glob noesc
  have c: "check_links (requests_head lib) (find_all_href soup (lit ''a'')) [] w1 =
       (Inr (reported (absolute_hrefs soup) outs), w2)"
    using check_links_acc [of "requests_head lib" "find_all_href soup (lit ''a'')" w1 "[]"]
    by (simp add: absolute_hrefs_def)
  from get ok soup glob noesc obtain r flv faf w3 where
    v: "verify_template lib u w = (Inr r, w3)" and
    f: "footer_checks (ucd lib) (requests_head lib) (find_tag soup (lit ''footer'')) w2 = ((flv, faf), w3)" and
    b: "broken_links (checks r) = reported (absolute_hrefs soup) outs" and
    flv: "footer_link_valid (checks r) = flv"
    by (rule verify_template_fields)
  from c b have c': "check_links (requests_head lib) (find_all_href soup (lit ''a'')) [] w1 =
      (Inr (broken_links (checks r)), w2)"
    by simp
  have d: "case find_tag soup (lit ''footer'') of
           None \<Rightarrow> footer_link_valid (checks r) = False \<and> w3 = w2
         | Some footer \<Rightarrow>
             footer_scan (requests_head lib) (find_all_href footer (lit ''a'')) w2 =
               (footer_link_valid (checks r), w3) \<and>
             set (find_all_href footer (lit ''a'')) \<subseteq> set (find_all_href soup (lit ''a''))"
  proof (cases "find_tag soup (lit ''footer'')")
    case None
    with f flv show ?thesis by simp
  next
    case (Some footer)
    from descendants_trans [OF find_tag_descendant [OF Some]]
    have "set (find_all_href footer (lit ''a'')) \<subseteq> set (find_all_href soup (lit ''a''))"
      by (auto simp: find_all_href_def)
    with f flv Some show ?thesis by (auto split: prod.splits)
  qed
  from v c' d have "\<exists>r w'. verify_template lib u w = (Inr r, w') \<and>
        check_links (requests_head lib) (find_all_href soup (lit ''a'')) [] w1 =
          (Inr (broken_links (checks r)), w2) \<and>
        (case find_tag soup (lit ''footer'') of
           None \<Rightarrow> footer_link_valid (checks r) = False \<and> w' = w2
         | Some footer \<Rightarrow>
             footer_scan (requests_head lib) (find_all_href footer (lit ''a'')) w2 =
               (footer_link_valid (checks r), w') \<and>
             set (find_all_href footer (lit ''a'')) \<subseteq> set (find_all_href soup (lit ''a'')))"
    by (intro exI [of _ r] exI [of _ w3] conjI)
  with A B show ?thesis by (intro conjI)
qed

theorem anchor_collection_witness:
  "find_all_href newsletter (lit ''a'') =
     [element ''a'' [(''href'', ''https://shop.example'')] [text_node ''Shop''],
      element ''a'' [(''href'', ''/contact'')] [text_node ''Contact''],
      element ''a'' [(''href'', ''https://corp.example'')] [text_node ''Home'']] \<and>
   map href (find_all_href newsletter (lit ''a'')) =
     [lit ''https://shop.example'', lit ''/contact'', lit ''https://corp.example''] \<and>
   (\<exists>r w'. verify_template (example_lib newsletter_html newsletter) (lit ''https://mail.example/news'') [] =
             (Inr r, w') \<and>
      check_links (requests_head (example_lib newsletter_html newsletter))
          (find_all_href newsletter (lit ''a'')) [] [lit ''https://mail.example/news''] =
        (Inr (broken_links (checks r)),
         [lit ''https://mail.example/news'', lit ''https://shop.example'', lit ''https://corp.example'']))"
proof -
  let ?lib = "example_lib newsletter_html newsletter"
  let ?u = "lit ''https://mail.example/news''"
  have get: "requests_get ?lib ?u [] = (Returns \<lparr>status_code = 200, resp_text = newsletter_html\<rparr>, [?u])"
    by (simp add: example_lib_def page_def)
  have ok: "status_code \<lparr>status_code = 200, resp_text = newsletter_html\<rparr> = 200" by simp
  have soup: "BeautifulSoup ?lib (resp_text \<lparr>status_code = 200, resp_text = newsletter_html\<rparr>) = Inr newsletter"
    by (simp add: example_lib_def)
  have glob: "probe_all (requests_head ?lib) (absolute_hrefs newsletter) [?u] =
      ([answer 200, answer 200], [?u, lit ''https://shop.example'', lit ''https://corp.example''])"
    by code_simp
  have noesc: "\<forall>out \<in> set [answer 200, answer 200]. \<not> escapes out" by (simp add: answer_def)
  have a: "find_all_href newsletter (lit ''a'') =
     [element ''a'' [(''href'', ''https://shop.example'')] [text_node ''Shop''],
      element ''a'' [(''href'', ''/contact'')] [text_node ''Contact''],
      element ''a'' [(''href'', ''https://corp.example'')] [text_node ''Home'']]"
    by code_simp
  have b: "map href (find_all_href newsletter (lit ''a'')) =
     [lit ''https://shop.example'', lit ''/contact'', lit ''https://corp.example'']"
    by code_simp
  from anchor_collection [OF get ok soup glob noesc]
  have "\<exists>r w'. verify_template ?lib ?u [] = (Inr r, w') \<and>
      check_links (requests_head ?lib) (find_all_href newsletter (lit ''a'')) [] [?u] =
        (Inr (broken_links (checks r)), [?u, lit ''https://shop.example'', lit ''https://corp.example''])"
    by blast
  with a b show ?thesis by (intro conjI)
qed



section \<open>The links\<close>

text \<open>
  C6. On every document fetched and parsed, the loop over the anchors probes the hrefs
  that begin with \<open>http://\<close> or \<open>https://\<close>, each once, in document order, and no other
  href; when every probe returns a status or raises an exception of the \<open>requests\<close>
  hierarchy, \<open>broken_links\<close> lists, in that order and with repetitions, the hrefs whose
  probe returned 400 or more or raised, a failing probe is followed by the remaining
  ones, and \<open>all_links_valid\<close> holds exactly when \<open>broken_links\<close> is empty.
\<close>

theorem global_link_validation:
  assumes get: "requests_get lib u w = (Returns resp, w1)" and ok: "status_code resp = 200"
    and soup: "BeautifulSoup lib (resp_text resp) = Inr soup"
    and glob: "probe_all (requests_head lib) (absolute_hrefs soup) w1 = (outs, w2)"
    and noesc: "\<forall>out \<in> set outs. \<not> escapes out"
  shows "check_links (requests_head lib) (find_all_href soup (lit ''a'')) [] w1 =
       (Inr (map fst (filter (\<lambda>(h, out). dead out \<or> unreachable out)
                        (zip (absolute_hrefs soup) outs))), w2) \<and>
     length outs = length (absolute_hrefs soup) \<and>
     (\<exists>r w'. verify_template lib u w = (Inr r, w') \<and>
        broken_links (checks r) =
          map fst (filter (\<lambda>(h, out). dead out \<or> unreachable out) (zip (absolute_hrefs soup) outs)) \<and>
        (all_links_valid (checks r) \<longleftrightarrow> broken_links (checks r) = []))"
proof -
  from glob noesc
  have c: "check_links (requests_head lib) (find_all_href soup (lit ''a'')) [] w1 =
       (Inr (map fst (filter (\<lambda>(h, out). dead out \<or> unreachable out)
                        (zip (absolute_hrefs soup) outs))), w2)"
    using check_links_acc [of "requests_head lib" "find_all_href soup (lit ''a'')" w1 "[]"]
    by (simp add: absolute_hrefs_def reported_def)
  from glob have l: "length outs = length (absolute_hrefs soup)"
    using length_probe_all [of "requests_head lib" "absolute_hrefs soup" w1] by simp
  from get ok soup glob noesc obtain flv faf w3 r where
    v: "verify_template lib u w = (Inr r, w3)" and
    r: "r = build_result u (resp_text resp) (is_test_template_of (lower (ucd lib) (get_text (ucd lib) soup)))
        (image_text_ratio_of (sum_list (map (\<lambda>img. length (str_tag lib img)) (find_all soup (lit ''img''))))
           (length (lower (ucd lib) (get_text (ucd lib) soup))))
        (reported (absolute_hrefs soup) outs) flv faf"
    by (rule verify_template_returns) blast
  have b: "broken_links (checks r) =
          map fst (filter (\<lambda>(h, out). dead out \<or> unreachable out) (zip (absolute_hrefs soup) outs))"
    by (simp add: r build_result_simps reported_def)
  have a: "all_links_valid (checks r) \<longleftrightarrow> broken_links (checks r) = []"
    by (simp add: r build_result_simps)
  from v b a have "\<exists>r w'. verify_template lib u w = (Inr r, w') \<and>
        broken_links (checks r) =
          map fst (filter (\<lambda>(h, out). dead out \<or> unreachable out) (zip (absolute_hrefs soup) outs)) \<and>
        (all_links_valid (checks r) \<longleftrightarrow> broken_links (checks r) = [])"
    by (intro exI [of _ r] exI [of _ w3] conjI)
  with c l show ?thesis by (intro conjI)
qed

theorem global_link_validation_witness:
  "absolute_hrefs digest =
     [lit ''http://good.example'', lit ''http://bad.example'', lit ''http://bad.example'',
      lit ''http://gone.example'', lit ''https://shop.example''] \<and>
   check_links (requests_head (example_lib digest_html digest)) (find_all_href digest (lit ''a'')) []
       [lit ''https://mail.example/digest''] =
     (Inr [lit ''http://bad.example'', lit ''http://bad.example'', lit ''http://gone.example''],
      [lit ''https://mail.example/digest'', lit ''http://good.example'', lit ''http://bad.example'',
       lit ''http://bad.example'', lit ''http://gone.example'', lit ''https://shop.example'']) \<and>
   (\<exists>r w'. verify_template (example_lib digest_html digest) (lit ''https://mail.example/digest'') [] = (Inr r, w') \<and>
      broken_links (checks r) = [lit ''http://bad.example'', lit ''http://bad.example'', lit ''http://gone.example''] \<and>
      all_links_valid (checks r) = False)"
proof -
  let ?lib = "example_lib digest_html digest"
  let ?u = "lit ''https://mail.example/digest''"
  let ?outs = "[answer 200, answer 404, answer 404, RequestException (lit ''timed out''), answer 200]"
  let ?w2 = "[?u, lit ''http://good.example'', lit ''http://bad.example'',
       lit ''http://bad.example'', lit ''http://gone.example'', lit ''https://shop.example'']"
  have get: "requests_get ?lib ?u [] = (Returns \<lparr>status_code = 200, resp_text = digest_html\<rparr>, [?u])"
    by (simp add: example_lib_def page_def)
  have ok: "status_code \<lparr>status_code = 200, resp_text = digest_html\<rparr> = 200" by simp
  have soup: "BeautifulSoup ?lib (resp_text \<lparr>status_code = 200, resp_text = digest_html\<rparr>) = Inr digest"
    by (simp add: example_lib_def)
  have hrefs: "absolute_hrefs digest =
     [lit ''http://good.example'', lit ''http://bad.example'', lit ''http://bad.example'',
      lit ''http://gone.example'', lit ''https://shop.example'']"
    by code_simp
  have glob: "probe_all (requests_head ?lib) (absolute_hrefs digest) [?u] = (?outs, ?w2)"
    by code_simp
  have noesc: "\<forall>out \<in> set ?outs. \<not> escapes out" by (simp add: answer_def)
  have rep: "map fst (filter (\<lambda>(h, out). dead out \<or> unreachable out) (zip (absolute_hrefs digest) ?outs)) =
      [lit ''http://bad.example'', lit ''http://bad.example'', lit ''http://gone.example'']"
    unfolding hrefs by (simp add: answer_def)
  from global_link_validation [OF get ok soup glob noesc]
  have c: "check_links (requests_head ?lib) (find_all_href digest (lit ''a'')) [] [?u] =
       (Inr [lit ''http://bad.example'', lit ''http://bad.example'', lit ''http://gone.example''], ?w2)"
    and "\<exists>r w'. verify_template ?lib ?u [] = (Inr r, w') \<and>
        broken_links (checks r) = [lit ''http://bad.example'', lit ''http://bad.example'', lit ''http://gone.example''] \<and>
        (all_links_valid (checks r) \<longleftrightarrow> broken_links (checks r) = [])"
    unfolding rep by blast+
  then have "\<exists>r w'. verify_template ?lib ?u [] = (Inr r, w') \<and>
      broken_links (checks r) = [lit ''http://bad.example'', lit ''http://bad.example'', lit ''http://gone.example''] \<and>
      all_links_valid (checks r) = False"
    by auto
  with hrefs c show ?thesis by (intro conjI)
qed

text \<open>
  C7. When the document is fetched and parsed, its link probes return or raise within
  the \<open>requests\<close> hierarchy and it has a footer element, the loop over the footer's
  anchors probes the hrefs that begin with \<open>http://\<close> or \<open>https://\<close> in document order
  and stops after the first probe that returns a status below 400, which makes
  \<open>footer_link_valid\<close> true; when no probe does, also when there is none,
  \<open>footer_link_valid\<close> is false. A probe that raises any exception counts as not alive
  and the loop goes on to the next link.
\<close>

theorem footer_link_scan:
  assumes get: "requests_get lib u w = (Returns resp, w1)" and ok: "status_code resp = 200"
    and soup: "BeautifulSoup lib (resp_text resp) = Inr soup"
    and glob: "probe_all (requests_head lib) (absolute_hrefs soup) w1 = (outs, w2)"
    and noesc: "\<forall>out \<in> set outs. \<not> escapes out"
    and footer: "find_tag soup (lit ''footer'') = Some footer"
    and fprobe: "probe_all (requests_head lib) (absolute_hrefs footer) w2 = (fouts, w3)"
    and n: "n = length (takeWhile (\<lambda>out. \<not> alive out) fouts)"
  shows "\<exists>r. verify_template lib u w =
           (Inr r, snd (probe_all (requests_head lib) (take (Suc n) (absolute_hrefs footer)) w2)) \<and>
     (footer_link_valid (checks r) \<longleftrightarrow> n < length fouts) \<and>
     (footer_link_valid (checks r) \<longleftrightarrow> (\<exists>out \<in> set fouts. alive out))"
proof -
  let ?w' = "snd (probe_all (requests_head lib) (take (Suc n) (absolute_hrefs footer)) w2)"
  from fprobe have len: "length fouts = length (absolute_hrefs footer)"
    using length_probe_all [of "requests_head lib" "absolute_hrefs footer" w2] by simp
  have s: "footer_scan (requests_head lib) (find_all_href footer (lit ''a'')) w2 = (n < length fouts, ?w')"
    using footer_scan_probe_all [of "requests_head lib" "find_all_href footer (lit ''a'')" w2] fprobe
    by (simp add: absolute_hrefs_def [symmetric] n len)
  then have f: "footer_checks (ucd lib) (requests_head lib) (find_tag soup (lit ''footer'')) w2 =
      ((n < length fouts, search (ucd lib) ADDRESS_REGEX (get_text (ucd lib) footer)), ?w')"
    by (simp add: footer)
  define r where "r = build_result u (resp_text resp) (is_test_template_of (lower (ucd lib) (get_text (ucd lib) soup)))
        (image_text_ratio_of (sum_list (map (\<lambda>img. length (str_tag lib img)) (find_all soup (lit ''img''))))
           (length (lower (ucd lib) (get_text (ucd lib) soup))))
        (reported (absolute_hrefs soup) outs) (n < length fouts) (search (ucd lib) ADDRESS_REGEX (get_text (ucd lib) footer))"
  have v: "verify_template lib u w = (Inr r, ?w')"
    unfolding r_def by (rule verify_template_fetched [OF get ok soup glob noesc f])
  have a: "footer_link_valid (checks r) \<longleftrightarrow> n < length fouts"
    by (simp add: r_def build_result_simps)
  have b: "footer_link_valid (checks r) \<longleftrightarrow> (\<exists>out \<in> set fouts. alive out)"
    unfolding a n by (rule takeWhile_not_all)
  from v a b show ?thesis by (intro exI [of _ r] conjI)
qed

theorem footer_link_scan_witness:
  "find_tag circular (lit ''footer'') = Some circular_footer \<and>
   absolute_hrefs circular_footer =
     [lit ''http://bad.example'', lit ''http://gone.example'', lit ''http://odd.example'',
      lit ''https://corp.example'', lit ''https://shop.example''] \<and>
   fst (probe_all (requests_head (retry_lib circular_html circular)) (absolute_hrefs circular_footer)
     [lit ''https://mail.example/circular'', lit ''http://bad.example'', lit ''http://gone.example'',
      lit ''http://odd.example'', lit ''https://corp.example'', lit ''https://shop.example'']) =
     [answer 404, RequestException (lit ''timed out''), OtherException (lit ''label empty or too long''),
      answer 200, answer 200] \<and>
   (\<exists>r. verify_template (retry_lib circular_html circular) (lit ''https://mail.example/circular'') [] =
      (Inr r, [lit ''https://mail.example/circular'', lit ''http://bad.example'', lit ''http://gone.example'',
               lit ''http://odd.example'', lit ''https://corp.example'', lit ''https://shop.example'',
               lit ''http://bad.example'', lit ''http://gone.example'', lit ''http://odd.example'',
               lit ''https://corp.example'']) \<and>
      footer_link_valid (checks r))"
proof -
  let ?lib = "retry_lib circular_html circular"
  let ?u = "lit ''https://mail.example/circular''"
  let ?outs = "[answer 404, RequestException (lit ''timed out''), answer 503, answer 200, answer 200]"
  let ?w2 = "[?u, lit ''http://bad.example'', lit ''http://gone.example'',
      lit ''http://odd.example'', lit ''https://corp.example'', lit ''https://shop.example'']"
  let ?fouts = "[answer 404, RequestException (lit ''timed out''), OtherException (lit ''label empty or too long''),
      answer 200, answer 200]"
  let ?w3 = "?w2 @ [lit ''http://bad.example'', lit ''http://gone.example'', lit ''http://odd.example'',
               lit ''https://corp.example'', lit ''https://shop.example'']"
  have get: "requests_get ?lib ?u [] = (Returns \<lparr>status_code = 200, resp_text = circular_html\<rparr>, [?u])"
    by (simp add: retry_lib_def page_def)
  have ok: "status_code \<lparr>status_code = 200, resp_text = circular_html\<rparr> = 200" by simp
  have soup: "BeautifulSoup ?lib (resp_text \<lparr>status_code = 200, resp_text = circular_html\<rparr>) = Inr circular"
    by (simp add: retry_lib_def)
  have glob: "probe_all (requests_head ?lib) (absolute_hrefs circular) [?u] = (?outs, ?w2)"
    by code_simp
  have noesc: "\<forall>out \<in> set ?outs. \<not> escapes out" by (simp add: answer_def)
  have footer: "find_tag circular (lit ''footer'') = Some circular_footer" by code_simp
  have hrefs: "absolute_hrefs circular_footer =
     [lit ''http://bad.example'', lit ''http://gone.example'', lit ''http://odd.example'',
      lit ''https://corp.example'', lit ''https://shop.example'']"
    by code_simp
  have fprobe: "probe_all (requests_head ?lib) (absolute_hrefs circular_footer) ?w2 = (?fouts, ?w3)"
    by code_simp
  have n: "3 = length (takeWhile (\<lambda>out. \<not> alive out) ?fouts)"
    by (simp add: answer_def)
  have stop: "snd (probe_all (requests_head ?lib) (take (Suc 3) (absolute_hrefs circular_footer)) ?w2) =
      ?w2 @ [lit ''http://bad.example'', lit ''http://gone.example'', lit ''http://odd.example'', lit ''https://corp.example'']"
    by code_simp
  from footer_link_scan [OF get ok soup glob noesc footer fprobe n]
  have "\<exists>r. verify_template ?lib ?u [] =
      (Inr r, ?w2 @ [lit ''http://bad.example'', lit ''http://gone.example'', lit ''http://odd.example'', lit ''https://corp.example'']) \<and>
      footer_link_valid (checks r)"
    unfolding stop by auto
  then have "\<exists>r. verify_template ?lib ?u [] =
      (Inr r, [lit ''https://mail.example/circular'', lit ''http://bad.example'', lit ''http://gone.example'',
               lit ''http://odd.example'', lit ''https://corp.example'', lit ''https://shop.example'',
               lit ''http://bad.example'', lit ''http://gone.example'', lit ''http://odd.example'',
               lit ''https://corp.example'']) \<and>
      footer_link_valid (checks r)"
    by simp
  moreover from fprobe have "fst (probe_all (requests_head ?lib) (absolute_hrefs circular_footer) ?w2) = ?fouts"
    by simp
  ultimately show ?thesis using footer hrefs by (intro conjI)
qed


section \<open>The footer\<close>

text \<open>
  C8. On every document fetched and parsed, without a footer element, whose link probes
  return or raise within the \<open>requests\<close> hierarchy, \<open>footer_link_valid\<close> and
  \<open>footer_address_found\<close> are both false, no footer probe is made, and when no test
  keyword is detected and no link is broken the verdict is fail with the footer
  message.
\<close>

theorem no_footer_fails:
  assumes get: "requests_get lib u w = (Returns resp, w1)" and ok: "status_code resp = 200"
    and soup: "BeautifulSoup lib (resp_text resp) = Inr soup"
    and glob: "probe_all (requests_head lib) (absolute_hrefs soup) w1 = (outs, w2)"
    and noesc: "\<forall>out \<in> set outs. \<not> escapes out"
    and nofooter: "find_tag soup (lit ''footer'') = None"
  shows "\<exists>r. verify_template lib u w = (Inr r, w2) \<and>
     footer_link_valid (checks r) = False \<and> footer_address_found (checks r) = False \<and>
     (\<not> is_test_template (checks r) \<and> broken_links (checks r) = [] \<longrightarrow>
        verification r = lit ''fail'' \<and>
        message r = lit ''Footer is missing a valid clickable website link or full company address.'')"
proof -
  have f: "footer_checks (ucd lib) (requests_head lib) (find_tag soup (lit ''footer'')) w2 = ((False, False), w2)"
    by (simp add: nofooter)
  define r where "r = build_result u (resp_text resp) (is_test_template_of (lower (ucd lib) (get_text (ucd lib) soup)))
        (image_text_ratio_of (sum_list (map (\<lambda>img. length (str_tag lib img)) (find_all soup (lit ''img''))))
           (length (lower (ucd lib) (get_text (ucd lib) soup))))
        (reported (absolute_hrefs soup) outs) False False"
  have v: "verify_template lib u w = (Inr r, w2)"
    unfolding r_def by (rule verify_template_fetched [OF get ok soup glob noesc f])
  have a: "footer_link_valid (checks r) = False" "footer_address_found (checks r) = False"
    by (simp_all add: r_def build_result_simps)
  have l: "all_links_valid (checks r) = (broken_links (checks r) = [])"
    by (simp add: r_def build_result_simps)
  have m: "(verification r, message r) = (fst (verdict (checks r)), snd (verdict (checks r)))"
    by (simp add: r_def build_result_simps)
  have b: "\<not> is_test_template (checks r) \<and> broken_links (checks r) = [] \<longrightarrow>
        verification r = lit ''fail'' \<and>
        message r = lit ''Footer is missing a valid clickable website link or full company address.''"
    using m unfolding verdict_rules l a by (auto split: if_splits)
  from v a b show ?thesis by (intro exI [of _ r] conjI)
qed

theorem no_footer_fails_witness:
  "find_tag memo (lit ''footer'') = None \<and>
   (\<exists>r. verify_template (example_lib memo_html memo) (lit ''https://mail.example/memo'') [] =
          (Inr r, [lit ''https://mail.example/memo'', lit ''https://shop.example'']) \<and>
      is_test_template (checks r) = False \<and> broken_links (checks r) = [] \<and>
      footer_link_valid (checks r) = False \<and> footer_address_found (checks r) = False \<and>
      verification r = lit ''fail'' \<and>
      message r = lit ''Footer is missing a valid clickable website link or full company address.'')"
proof -
  let ?lib = "example_lib memo_html memo"
  let ?u = "lit ''https://mail.example/memo''"
  have get: "requests_get ?lib ?u [] = (Returns \<lparr>status_code = 200, resp_text = memo_html\<rparr>, [?u])"
    by (simp add: example_lib_def page_def)
  have ok: "status_code \<lparr>status_code = 200, resp_text = memo_html\<rparr> = 200" by simp
  have soup: "BeautifulSoup ?lib (resp_text \<lparr>status_code = 200, resp_text = memo_html\<rparr>) = Inr memo"
    by (simp add: example_lib_def)
  have glob: "probe_all (requests_head ?lib) (absolute_hrefs memo) [?u] =
      ([answer 200], [?u, lit ''https://shop.example''])"
    by code_simp
  have noesc: "\<forall>out \<in> set [answer 200]. \<not> escapes out" by (simp add: answer_def)
  have nofooter: "find_tag memo (lit ''footer'') = None" by code_simp
  from no_footer_fails [OF get ok soup glob noesc nofooter] obtain r where
    v: "verify_template ?lib ?u [] = (Inr r, [?u, lit ''https://shop.example''])" and
    f: "footer_link_valid (checks r) = False" "footer_address_found (checks r) = False" and
    p: "\<not> is_test_template (checks r) \<and> broken_links (checks r) = [] \<longrightarrow>
        verification r = lit ''fail'' \<and>
        message r = lit ''Footer is missing a valid clickable website link or full company address.''"
    by blast
  from v have r: "r = projr (fst (verify_template ?lib ?u []))" by simp
  have e: "is_test_template (checks (projr (fst (verify_template ?lib ?u [])))) = False"
    "broken_links (checks (projr (fst (verify_template ?lib ?u [])))) = []"
    by code_simp+
  from e have e': "is_test_template (checks r) = False" "broken_links (checks r) = []"
    unfolding r [symmetric] by simp_all
  with p have "verification r = lit ''fail''"
    "message r = lit ''Footer is missing a valid clickable website link or full company address.''"
    by simp_all
  with v f e' have "\<exists>r. verify_template ?lib ?u [] = (Inr r, [?u, lit ''https://shop.example'']) \<and>
      is_test_template (checks r) = False \<and> broken_links (checks r) = [] \<and>
      footer_link_valid (checks r) = False \<and> footer_address_found (checks r) = False \<and>
      verification r = lit ''fail'' \<and>
      message r = lit ''Footer is missing a valid clickable website link or full company address.''"
    by (intro exI [of _ r] conjI)
  with nofooter show ?thesis by (intro conjI)
qed

text \<open>
  C9. When the document is fetched and parsed, its link probes return or raise within
  the \<open>requests\<close> hierarchy and it has a footer element, \<open>footer_address_found\<close> holds
  exactly when some part of the footer's text is matched by the address pattern, where
  the footer's text is its text nodes in document order, each trimmed, the empty ones
  dropped, the rest joined by single spaces, in their original case. The text
  \<open>123 Main Street, Springfield, IL 62704\<close> has such a part and \<open>Contact us!\<close> has
  none.
\<close>

theorem footer_address_search:
  assumes get: "requests_get lib u w = (Returns resp, w1)" and ok: "status_code resp = 200"
    and soup: "BeautifulSoup lib (resp_text resp) = Inr soup"
    and glob: "probe_all (requests_head lib) (absolute_hrefs soup) w1 = (outs, w2)"
    and noesc: "\<forall>out \<in> set outs. \<not> escapes out"
    and footer: "find_tag soup (lit ''footer'') = Some footer"
    and ts: "list_all2 (trimmed (ucd lib)) (all_strings footer) ts"
    and ft: "footer_text = join (lit '' '') (filter (\<lambda>s. s \<noteq> []) ts)"
  shows "(\<exists>r w'. verify_template lib u w = (Inr r, w') \<and>
       (footer_address_found (checks r) \<longleftrightarrow>
          (\<exists>p m q. footer_text = p @ m @ q \<and> m \<in> lang (ucd lib) ADDRESS_REGEX))) \<and>
     (\<exists>p m q. lit ''123 Main Street, Springfield, IL 62704'' = p @ m @ q \<and>
        m \<in> lang (ucd lib) ADDRESS_REGEX) \<and>
     \<not> (\<exists>p m q. lit ''Contact us!'' = p @ m @ q \<and> m \<in> lang (ucd lib) ADDRESS_REGEX)"
proof -
  obtain flv w3 where
    s: "footer_scan (requests_head lib) (find_all_href footer (lit ''a'')) w2 = (flv, w3)"
    by (metis prod.exhaust)
  then have f: "footer_checks (ucd lib) (requests_head lib) (find_tag soup (lit ''footer'')) w2 =
      ((flv, search (ucd lib) ADDRESS_REGEX (get_text (ucd lib) footer)), w3)"
    by (simp add: footer)
  from get ok soup glob noesc obtain r flv' faf w3' where
    v: "verify_template lib u w = (Inr r, w3')" and
    f': "footer_checks (ucd lib) (requests_head lib) (find_tag soup (lit ''footer'')) w2 = ((flv', faf), w3')" and
    a': "footer_address_found (checks r) = faf"
    by (rule verify_template_fields)
  from f f' have "faf = search (ucd lib) ADDRESS_REGEX (get_text (ucd lib) footer)" by simp
  with a' have "footer_address_found (checks r) = search (ucd lib) ADDRESS_REGEX (get_text (ucd lib) footer)"
    by simp
  also have "get_text (ucd lib) footer = footer_text"
    unfolding ft by (rule get_text_trimmed [OF ts])
  finally have a: "footer_address_found (checks r) \<longleftrightarrow>
          (\<exists>p m q. footer_text = p @ m @ q \<and> m \<in> lang (ucd lib) ADDRESS_REGEX)"
    unfolding search_iff .
  from v a have A: "\<exists>r w'. verify_template lib u w = (Inr r, w') \<and>
       (footer_address_found (checks r) \<longleftrightarrow>
          (\<exists>p m q. footer_text = p @ m @ q \<and> m \<in> lang (ucd lib) ADDRESS_REGEX))"
    by (intro exI [of _ r] exI [of _ w3'] conjI)
  have "search (ucd lib) ADDRESS_REGEX (lit ''123 Main Street, Springfield, IL 62704'')" by code_simp
  then have B: "\<exists>p m q. lit ''123 Main Street, Springfield, IL 62704'' = p @ m @ q \<and>
      m \<in> lang (ucd lib) ADDRESS_REGEX"
    unfolding search_iff .
  have "\<not> search (ucd lib) ADDRESS_REGEX (lit ''Contact us!'')" by code_simp
  then have C: "\<not> (\<exists>p m q. lit ''Contact us!'' = p @ m @ q \<and> m \<in> lang (ucd lib) ADDRESS_REGEX)"
    unfolding search_iff .
  from A B C show ?thesis by (intro conjI)
qed

theorem footer_address_search_witness:
  "find_tag brochure (lit ''footer'') = Some brochure_footer \<and>
   all_strings brochure_footer =
     [[newline] @ lit ''  '' @ brochure_address @ lit '' '' @ [newline], lit ''Accueil''] \<and>
   list_all2 (trimmed plain_tables) (all_strings brochure_footer) [brochure_address, lit ''Accueil''] \<and>
   join (lit '' '') (filter (\<lambda>s. s \<noteq> []) [brochure_address, lit ''Accueil'']) =
     lit ''12'' @ [nbsp] @ lit ''Rue Caf'' @ [e_acute] @ lit '', Orl'' @ [e_acute] @ lit ''ans, FR'' @
     [nbsp] @ lit ''45000 Accueil'' \<and>
   search plain_tables ADDRESS_REGEX brochure_address \<and>
   (\<exists>r w'. verify_template (example_lib brochure_html brochure) (lit ''https://mail.example/brochure'') [] =
             (Inr r, w') \<and>
      footer_address_found (checks r))"
proof -
  let ?lib = "example_lib brochure_html brochure"
  let ?u = "lit ''https://mail.example/brochure''"
  let ?ts = "[brochure_address, lit ''Accueil'']"
  have get: "requests_get ?lib ?u [] = (Returns \<lparr>status_code = 200, resp_text = brochure_html\<rparr>, [?u])"
    by (simp add: example_lib_def page_def)
  have ok: "status_code \<lparr>status_code = 200, resp_text = brochure_html\<rparr> = 200" by simp
  have soup: "BeautifulSoup ?lib (resp_text \<lparr>status_code = 200, resp_text = brochure_html\<rparr>) = Inr brochure"
    by (simp add: example_lib_def)
  have glob: "probe_all (requests_head ?lib) (absolute_hrefs brochure) [?u] =
      ([answer 200], [?u, lit ''https://corp.example''])"
    by code_simp
  have noesc: "\<forall>out \<in> set [answer 200]. \<not> escapes out" by (simp add: answer_def)
  have uc: "ucd ?lib = plain_tables" by (simp add: example_lib_def)
  have footer: "find_tag brochure (lit ''footer'') = Some brochure_footer" by code_simp
  have nodes: "all_strings brochure_footer =
     [[newline] @ lit ''  '' @ brochure_address @ lit '' '' @ [newline], lit ''Accueil'']"
    by code_simp
  have "map (strip plain_tables) (all_strings brochure_footer) = ?ts" by code_simp
  with trimmed_strip_all [of plain_tables "all_strings brochure_footer"]
  have ts: "list_all2 (trimmed plain_tables) (all_strings brochure_footer) ?ts" by simp
  have ft: "join (lit '' '') (filter (\<lambda>s. s \<noteq> []) ?ts) =
     lit ''12'' @ [nbsp] @ lit ''Rue Caf'' @ [e_acute] @ lit '', Orl'' @ [e_acute] @ lit ''ans, FR'' @
     [nbsp] @ lit ''45000 Accueil''"
    by code_simp
  have m: "search plain_tables ADDRESS_REGEX brochure_address" by code_simp
  have "search plain_tables ADDRESS_REGEX (join (lit '' '') (filter (\<lambda>s. s \<noteq> []) ?ts))"
    by code_simp
  then have hit: "\<exists>p m q. join (lit '' '') (filter (\<lambda>s. s \<noteq> []) ?ts) = p @ m @ q \<and>
      m \<in> lang plain_tables ADDRESS_REGEX"
    unfolding search_iff .
  from footer_address_search [OF get ok soup glob noesc footer, unfolded uc, OF ts refl] hit
  have "\<exists>r w'. verify_template ?lib ?u [] = (Inr r, w') \<and> footer_address_found (checks r)"
    by blast
  with footer nodes ts ft m show ?thesis by (intro conjI)
qed


section \<open>Dead footer links\<close>

text \<open>
  C10, as stated, fails on the reminder: the outcome of a probe depends on the URL
  alone, the footer has one absolute link and it is dead, so \<open>broken_links\<close> is not
  empty, but the text has test content and the message is the one of rule 1, not the
  broken-links message.
\<close>

theorem dead_footer_links_counterexample:
  "requests_head (example_lib reminder_html reminder) = table_head probes \<and>
   map_option absolute_hrefs (find_tag reminder (lit ''footer'')) = Some [lit ''http://bad.example''] \<and>
   probes (lit ''http://bad.example'') = answer 404 \<and>
   is_test_template (checks (projr (fst
     (verify_template (example_lib reminder_html reminder) (lit ''https://mail.example/reminder'') [])))) = True \<and>
   broken_links (checks (projr (fst
     (verify_template (example_lib reminder_html reminder) (lit ''https://mail.example/reminder'') [])))) =
     [lit ''http://bad.example''] \<and>
   message (projr (fst
     (verify_template (example_lib reminder_html reminder) (lit ''https://mail.example/reminder'') []))) =
     lit ''The template appears to be a test/dummy template.'' \<and>
   message (projr (fst
     (verify_template (example_lib reminder_html reminder) (lit ''https://mail.example/reminder'') []))) \<noteq>
     lit ''One or more clickable links are broken.''"
proof -
  have a: "requests_head (example_lib reminder_html reminder) = table_head probes"
    by (simp add: example_lib_def)
  have b: "map_option absolute_hrefs (find_tag reminder (lit ''footer'')) = Some [lit ''http://bad.example''] \<and>
   probes (lit ''http://bad.example'') = answer 404 \<and>
   is_test_template (checks (projr (fst
     (verify_template (example_lib reminder_html reminder) (lit ''https://mail.example/reminder'') [])))) = True \<and>
   broken_links (checks (projr (fst
     (verify_template (example_lib reminder_html reminder) (lit ''https://mail.example/reminder'') [])))) =
     [lit ''http://bad.example''] \<and>
   message (projr (fst
     (verify_template (example_lib reminder_html reminder) (lit ''https://mail.example/reminder'') []))) =
     lit ''The template appears to be a test/dummy template.'' \<and>
   message (projr (fst
     (verify_template (example_lib reminder_html reminder) (lit ''https://mail.example/reminder'') []))) \<noteq>
     lit ''One or more clickable links are broken.''"
    by code_simp
  from a b show ?thesis by (rule conjI)
qed

text \<open>
  C10, amended. Every absolute href of the footer's anchors is among those the loop over
  the links probes. When the outcome of a probe depends on the URL alone, no probe of a
  link of the document raises outside the \<open>requests\<close> hierarchy, the footer has an
  absolute link and each of its absolute links is dead or unreachable, then
  \<open>broken_links\<close> is not empty and the verdict is fail with the message of rule 1 when
  test content is detected and of rule 2 otherwise, never with the footer message.
\<close>

theorem dead_footer_links:
  assumes get: "requests_get lib u w = (Returns resp, w1)" and ok: "status_code resp = 200"
    and soup: "BeautifulSoup lib (resp_text resp) = Inr soup"
    and pure: "\<forall>h s. fst (requests_head lib h s) = f h"
    and noesc: "\<forall>h \<in> set (absolute_hrefs soup). \<not> escapes (f h)"
    and footer: "find_tag soup (lit ''footer'') = Some footer"
    and some: "absolute_hrefs footer \<noteq> []"
    and alldead: "\<forall>h \<in> set (absolute_hrefs footer). dead (f h) \<or> unreachable (f h)"
  shows "set (absolute_hrefs footer) \<subseteq> set (absolute_hrefs soup) \<and>
     (\<exists>r w'. verify_template lib u w = (Inr r, w') \<and>
        broken_links (checks r) \<noteq> [] \<and> verification r = lit ''fail'' \<and>
        message r =
          (if is_test_template (checks r) then lit ''The template appears to be a test/dummy template.''
           else lit ''One or more clickable links are broken.'') \<and>
        message r \<noteq> lit ''Footer is missing a valid clickable website link or full company address.'')"
proof -
  have sub: "set (absolute_hrefs footer) \<subseteq> set (absolute_hrefs soup)"
    by (rule footer_hrefs_subset [OF footer])
  obtain outs w2 where glob: "probe_all (requests_head lib) (absolute_hrefs soup) w1 = (outs, w2)"
    by (metis prod.exhaust)
  with probe_all_pure [OF pure, of "absolute_hrefs soup" w1]
  have outs: "outs = map f (absolute_hrefs soup)" by simp
  with noesc have ne: "\<forall>out \<in> set outs. \<not> escapes out" by simp
  from get ok soup glob ne obtain flv faf w3 r where
    v: "verify_template lib u w = (Inr r, w3)" and
    r: "r = build_result u (resp_text resp) (is_test_template_of (lower (ucd lib) (get_text (ucd lib) soup)))
        (image_text_ratio_of (sum_list (map (\<lambda>img. length (str_tag lib img)) (find_all soup (lit ''img''))))
           (length (lower (ucd lib) (get_text (ucd lib) soup))))
        (reported (absolute_hrefs soup) outs) flv faf"
    by (rule verify_template_returns) blast
  from some obtain h where h: "h \<in> set (absolute_hrefs footer)" by (cases "absolute_hrefs footer") auto
  with sub alldead have "h \<in> set (absolute_hrefs soup)" "dead (f h) \<or> unreachable (f h)" by auto
  then have "h \<in> set (filter (\<lambda>h. dead (f h) \<or> unreachable (f h)) (absolute_hrefs soup))" by simp
  then have "filter (\<lambda>h. dead (f h) \<or> unreachable (f h)) (absolute_hrefs soup) \<noteq> []"
    by (metis empty_iff list.set(1))
  then have "reported (absolute_hrefs soup) outs \<noteq> []"
    unfolding outs reported_map .
  then have b: "broken_links (checks r) \<noteq> []" by (simp add: r build_result_simps)
  have l: "all_links_valid (checks r) = (broken_links (checks r) = [])"
    by (simp add: r build_result_simps)
  have m: "(verification r, message r) = (fst (verdict (checks r)), snd (verdict (checks r)))"
    by (simp add: r build_result_simps)
  from m b have c: "verification r = lit ''fail''"
    "message r =
          (if is_test_template (checks r) then lit ''The template appears to be a test/dummy template.''
           else lit ''One or more clickable links are broken.'')"
    unfolding verdict_rules l by (auto split: if_splits)
  then have d: "message r \<noteq> lit ''Footer is missing a valid clickable website link or full company address.''"
    by (simp add: lit_def split: if_splits)
  from v b c d have "\<exists>r w'. verify_template lib u w = (Inr r, w') \<and>
        broken_links (checks r) \<noteq> [] \<and> verification r = lit ''fail'' \<and>
        message r =
          (if is_test_template (checks r) then lit ''The template appears to be a test/dummy template.''
           else lit ''One or more clickable links are broken.'') \<and>
        message r \<noteq> lit ''Footer is missing a valid clickable website link or full company address.''"
    by (intro exI [of _ r] exI [of _ w3] conjI)
  with sub show ?thesis by (intro conjI)
qed

theorem dead_footer_links_witness:
  "find_tag farewell (lit ''footer'') =
     Some farewell_footer \<and>
   absolute_hrefs farewell_footer =
     [lit ''http://bad.example''] \<and>
   dead (probes (lit ''http://bad.example'')) \<and>
   (\<exists>r w'. verify_template (example_lib farewell_html farewell) (lit ''https://mail.example/farewell'') [] = (Inr r, w') \<and>
      is_test_template (checks r) = False \<and> broken_links (checks r) \<noteq> [] \<and>
      verification r = lit ''fail'' \<and> message r = lit ''One or more clickable links are broken.'')"
proof -
  let ?lib = "example_lib farewell_html farewell"
  let ?u = "lit ''https://mail.example/farewell''"
    have get: "requests_get ?lib ?u [] = (Returns \<lparr>status_code = 200, resp_text = farewell_html\<rparr>, [?u])"
    by (simp add: example_lib_def page_def)
  have ok: "status_code \<lparr>status_code = 200, resp_text = farewell_html\<rparr> = 200" by simp
  have soup: "BeautifulSoup ?lib (resp_text \<lparr>status_code = 200, resp_text = farewell_html\<rparr>) = Inr farewell"
    by (simp add: example_lib_def)
  have pure: "\<forall>h s. fst (requests_head ?lib h s) = probes h"
    by (simp add: example_lib_def table_head_def)
  have hs: "absolute_hrefs farewell = [lit ''http://bad.example'']" by code_simp
  have bad: "probes (lit ''http://bad.example'') = answer 404" by code_simp
  have noesc: "\<forall>h \<in> set (absolute_hrefs farewell). \<not> escapes (probes h)"
    unfolding hs by (simp add: bad answer_def)
  have footer: "find_tag farewell (lit ''footer'') = Some farewell_footer" by code_simp
  have fh: "absolute_hrefs farewell_footer = [lit ''http://bad.example'']" by code_simp
  have some: "absolute_hrefs farewell_footer \<noteq> []" unfolding fh by simp
  have dd: "dead (probes (lit ''http://bad.example''))" by (simp add: bad answer_def)
  then have alldead: "\<forall>h \<in> set (absolute_hrefs farewell_footer). dead (probes h) \<or> unreachable (probes h)"
    unfolding fh by simp
  from dead_footer_links [OF get ok soup pure noesc footer some alldead] obtain r w' where
    v: "verify_template ?lib ?u [] = (Inr r, w')" and
    b: "broken_links (checks r) \<noteq> []" "verification r = lit ''fail''" and
    m: "message r =
          (if is_test_template (checks r) then lit ''The template appears to be a test/dummy template.''
           else lit ''One or more clickable links are broken.'')"
    by blast
  from v have r: "r = projr (fst (verify_template ?lib ?u []))" by simp
  have "is_test_template (checks (projr (fst (verify_template ?lib ?u [])))) = False" by code_simp
  then have t: "is_test_template (checks r) = False" unfolding r [symmetric] .
  with m have m': "message r = lit ''One or more clickable links are broken.''" by simp
  from v t b m' have "\<exists>r w'. verify_template ?lib ?u [] = (Inr r, w') \<and>
      is_test_template (checks r) = False \<and> broken_links (checks r) \<noteq> [] \<and>
      verification r = lit ''fail'' \<and> message r = lit ''One or more clickable links are broken.''"
    by (intro exI [of _ r] exI [of _ w'] conjI)
  with footer fh dd show ?thesis by (intro conjI)
qed

end
